theory Spec2Isabelle
  imports Main "HOL-Library.Word"
begin

unbundle bit_operations_syntax

chapter \<open>The identifier generators of @oxog/uid\<close>

section \<open>Shared types\<close>

text \<open>
  The error codes of \<open>UidError\<close> that the modelled functions throw, and the built-in
  \<open>SyntaxError\<close> of \<open>BigInt(string)\<close> and \<open>RangeError\<close> of \<open>BigInt(number)\<close>. A thrown
  error is the \<open>Inl\<close> branch of a result.
\<close>

datatype error =
  INVALID_ALPHABET | INVALID_SIZE | NOT_CONFIGURED | CLOCK_BACKWARDS | SyntaxError | RangeError

text \<open>
  A \<open>Uint8Array\<close> is a list of 8-bit words, and a \<open>BigInt\<close> is an integer. Where the code
  computes with numbers that are integers below \<open>2^53\<close> by construction (clock readings,
  lengths, indices, bytes), the model computes with integers. Where a number comes from
  the caller unchecked, or from a conversion that can leave the integers, it is a
  \<open>JSNumber\<close>: an integer, \<open>NaN\<close>, or an infinity of either sign (finite numbers with a
  fractional part are not represented).
\<close>

datatype JSNumber = Integer int | NaN | Infinity

text \<open>
  A JavaScript string is the sequence of its UTF-16 code units. A string that the code
  takes from its caller and reads character by character (an alphabet, a ULID to decode
  or to validate) is a \<open>jsstring\<close>, the list of its code units; \<open>utf16\<close> gives the code
  units of a literal. The strings of hexadecimal and decimal digits and the CUID2 strings
  are lists of \<open>char\<close>, one for each code unit.
\<close>

type_synonym codeunit = "16 word"

type_synonym jsstring = "codeunit list"

definition utf16 :: "string \<Rightarrow> jsstring" where
  "utf16 s = map (\<lambda>c. of_nat (of_char c)) s"

text \<open>
  The string iterator (\<open>for ... of\<close>, \<open>new Set(string)\<close>) yields the code points of a
  string, each as a string: a high surrogate followed by a low surrogate is one element,
  every other code unit is an element of its own.
\<close>

definition isHighSurrogate :: "codeunit \<Rightarrow> bool" where
  "isHighSurrogate c = (0xD800 \<le> c \<and> c \<le> 0xDBFF)"

definition isLowSurrogate :: "codeunit \<Rightarrow> bool" where
  "isLowSurrogate c = (0xDC00 \<le> c \<and> c \<le> 0xDFFF)"

fun codePoints :: "jsstring \<Rightarrow> jsstring list" where
  "codePoints [] = []"
| "codePoints [c] = [ [c] ]"
| "codePoints (c # d # cs) =
     (if isHighSurrogate c \<and> isLowSurrogate d then [c, d] # codePoints cs
      else [c] # codePoints (d # cs))"

type_synonym byte = "8 word"

text \<open>
  The kernel's random source. \<open>kernel.random(size)\<close> returns \<open>size\<close> fresh bytes; one
  call is modelled by the tape of bytes it draws from, so that two calls take two tapes.
\<close>

type_synonym UidKernel = "nat \<Rightarrow> byte"

definition kernelRandom :: "UidKernel \<Rightarrow> nat \<Rightarrow> byte list" where
  "kernelRandom krn n = map krn [0..<n]"

text \<open>The comparison \<open><\<close> of two JavaScript strings: lexicographic on the code units.\<close>

fun stringLess :: "string \<Rightarrow> string \<Rightarrow> bool" where
  "stringLess [] [] = False"
| "stringLess [] (y # ys) = True"
| "stringLess (x # xs) [] = False"
| "stringLess (x # xs) (y # ys) =
     (if (of_char x :: nat) < of_char y then True
      else if (of_char y :: nat) < of_char x then False
      else stringLess xs ys)"

section \<open>Numbers as strings\<close>

text \<open>
  \<open>Number.prototype.toString(radix)\<close> and \<open>BigInt.prototype.toString()\<close> on integers: the
  digits of the value in the radix, most significant first, over \<open>0-9a-z\<close>, with a leading
  minus sign for a negative value. The radix is 10, 16 or 36 in the modelled code.
\<close>

definition DIGITS :: string where
  "DIGITS = ''0123456789abcdefghijklmnopqrstuvwxyz''"

function natToString :: "nat \<Rightarrow> nat \<Rightarrow> string" where
  "natToString radix n =
     (if n < radix \<or> radix < 2 then [DIGITS ! n]
      else natToString radix (n div radix) @ [DIGITS ! (n mod radix)])"
  by pat_completeness auto
termination
  by (relation "measure snd") auto

declare natToString.simps [simp del]

definition numberToString :: "nat \<Rightarrow> int \<Rightarrow> string" where
  "numberToString radix v =
     (if v < 0 then CHR ''-'' # natToString radix (nat (- v)) else natToString radix (nat v))"

definition bigintToString :: "int \<Rightarrow> string" where
  "bigintToString v = numberToString 10 v"

text \<open>
  \<open>BigInt(string)\<close> on the decimal literals: the empty string is \<open>0n\<close>, an optional sign is
  followed by at least one decimal digit, anything else throws \<open>SyntaxError\<close>. (The
  surrounding white space and the \<open>0x\<close>, \<open>0o\<close>, \<open>0b\<close> prefixes that JavaScript also
  accepts are never produced by \<open>toString\<close> and are left out.)
\<close>

definition isDigit :: "char \<Rightarrow> bool" where
  "isDigit c = (48 \<le> (of_char c :: nat) \<and> (of_char c :: nat) \<le> 57)"

fun decimalValue :: "nat \<Rightarrow> string \<Rightarrow> nat option" where
  "decimalValue acc [] = Some acc"
| "decimalValue acc (c # cs) =
     (if isDigit c then decimalValue (acc * 10 + (of_char c - 48)) cs else None)"

definition parseDecimal :: "string \<Rightarrow> error + nat" where
  "parseDecimal s =
     (if s = [] then Inl SyntaxError
      else case decimalValue 0 s of None \<Rightarrow> Inl SyntaxError | Some n \<Rightarrow> Inr n)"

definition stringToBigInt :: "string \<Rightarrow> error + int" where
  "stringToBigInt s =
     (case s of
        [] \<Rightarrow> Inr 0
      | c # cs \<Rightarrow>
          if c = CHR ''-'' then map_sum id (\<lambda>n. - int n) (parseDecimal cs)
          else if c = CHR ''+'' then map_sum id int (parseDecimal cs)
          else map_sum id int (parseDecimal s))"

text \<open>
  \<open>BigInt(number)\<close>: the integer itself, \<open>RangeError\<close> for a number that is not an integer.
  \<open>Number(bigint)\<close>: the nearest double, a tie going to the even one of the two, and an
  infinity beyond the doubles; every integer of at most 53 bits is a double.
  \<open>new Date(number)\<close>: its time value, which is \<open>NaN\<close> outside of \<open>\<plusminus> 8.64e15\<close>.
\<close>

definition numberToBigInt :: "JSNumber \<Rightarrow> error + int" where
  "numberToBigInt x = (case x of Integer v \<Rightarrow> Inr v | NaN \<Rightarrow> Inl RangeError | Infinity \<Rightarrow> Inl RangeError)"

function bitCount :: "int \<Rightarrow> nat" where
  "bitCount v = (if v \<le> 0 then 0 else Suc (bitCount (v div 2)))"
  by pat_completeness auto
termination
  by (relation "measure nat") auto

declare bitCount.simps [simp del]

definition bigintToNumber :: "int \<Rightarrow> JSNumber" where
  "bigintToNumber v =
     (let a = \<bar>v\<bar>; n = bitCount a
      in if n \<le> 53 then Integer v
         else
           let k = n - 53;
               q = drop_bit k a;
               r = take_bit k a;
               half = 2 ^ (k - 1);
               q = (if r > half \<or> (r = half \<and> q mod 2 = 1) then q + 1 else q);
               m = push_bit k q
           in if m \<ge> 2 ^ 1024 then Infinity else Integer (sgn v * m))"

definition dateValue :: "JSNumber \<Rightarrow> JSNumber" where
  "dateValue x =
     (case x of
        Integer v \<Rightarrow> if \<bar>v\<bar> \<le> 8640000000000000 then Integer v else NaN
      | NaN \<Rightarrow> NaN
      | Infinity \<Rightarrow> NaN)"

section \<open>Shared utility functions (utils.ts)\<close>

text \<open>\<open>bytesToNumber\<close>: \<open>num = (num << 8n) | BigInt(byte)\<close> for each byte in turn.\<close>

definition bytesToNumber :: "byte list \<Rightarrow> int" where
  "bytesToNumber bytes = foldl (\<lambda>num b. push_bit 8 num OR uint b) 0 bytes"

text \<open>
  \<open>validateAlphabet\<close>: \<open>alphabet.length\<close> counts code units, \<open>new Set(alphabet)\<close> holds
  the code points.
\<close>

definition validateAlphabet :: "jsstring \<Rightarrow> error + unit" where
  "validateAlphabet alphabet =
     (if length alphabet < 2 then Inl INVALID_ALPHABET
      else if card (set (codePoints alphabet)) \<noteq> length alphabet then Inl INVALID_ALPHABET
      else Inr ())"

text \<open>
  \<open>validateSize\<close>: the sizes of the model are integers, so \<open>Number.isInteger\<close> holds and the
  range check remains.
\<close>

definition validateSize :: "int \<Rightarrow> int \<Rightarrow> int \<Rightarrow> error + unit" where
  "validateSize n lo hi = (if n < lo \<or> n > hi then Inl INVALID_SIZE else Inr ())"

text \<open>\<open>String.prototype.padStart(n, '0')\<close>, \<open>byteToHex\<close> and \<open>toHex\<close>.\<close>

definition padStart :: "nat \<Rightarrow> char \<Rightarrow> string \<Rightarrow> string" where
  "padStart n c s = replicate (n - length s) c @ s"

definition byteToHex :: "byte \<Rightarrow> string" where
  "byteToHex b = padStart 2 (CHR ''0'') (natToString 16 (unat b))"

definition toHex :: "byte list \<Rightarrow> string" where
  "toHex bytes = concat (map (\<lambda>b. padStart 2 (CHR ''0'') (natToString 16 (unat b))) bytes)"

text \<open>
  The loop of \<open>encodeBase\<close>: while \<open>num > 0n\<close>, put the character of \<open>num % base\<close> in front
  of the result and divide \<open>num\<close> by the base. \<open>validateAlphabet\<close> has run before the
  loop, so the base is at least 2 there; the guard of the model repeats that fact, which
  is what makes the loop end.
\<close>

function encodeLoop :: "jsstring \<Rightarrow> int \<Rightarrow> jsstring \<Rightarrow> jsstring" where
  "encodeLoop alphabet num result =
     (if num > 0 \<and> 2 \<le> length alphabet
      then encodeLoop alphabet (num div int (length alphabet))
             ((alphabet ! nat (num mod int (length alphabet))) # result)
      else result)"
  by pat_completeness auto
termination
proof (relation "measure (\<lambda>(alphabet, num, result). nat num)")
  show "wf (measure (\<lambda>(alphabet, num, result). nat num))"
    by simp
next
  fix alphabet :: jsstring and num :: int and result :: jsstring
  assume a: "0 < num \<and> 2 \<le> length alphabet"
  then have "num div int (length alphabet) < num"
    by (intro int_div_less_self) auto
  then show "((alphabet, num div int (length alphabet),
      (alphabet ! nat (num mod int (length alphabet))) # result), (alphabet, num, result))
      \<in> measure (\<lambda>(alphabet, num, result). nat num)"
    using a by simp
qed

declare encodeLoop.simps [simp del]

definition encodeBase :: "byte list \<Rightarrow> jsstring \<Rightarrow> error + jsstring" where
  "encodeBase bytes alphabet =
     (case validateAlphabet alphabet of
        Inl e \<Rightarrow> Inl e
      | Inr u \<Rightarrow>
          if length bytes = 0 then Inr []
          else Inr (encodeLoop alphabet (bytesToNumber bytes) []))"

text \<open>
  \<open>decodeBase\<close>. The map \<open>charIndex\<close> is filled for \<open>i = 0, 1, ...\<close> in turn, its keys being
  the code units \<open>alphabet[i]\<close> as strings; the code points of the string (\<open>for ... of\<close>) are
  folded into \<open>num\<close>, one that is not a key throws; \<open>Math.ceil(Math.log2(n))\<close> is the least
  \<open>k\<close> with \<open>n \<le> 2^k\<close>; the bytes of \<open>num\<close> are put in front of each other, least
  significant first, and zero bytes are put in front up to \<open>byteLength\<close>.
\<close>

definition buildCharIndex :: "jsstring \<Rightarrow> (jsstring \<rightharpoonup> int)" where
  "buildCharIndex alphabet =
     foldl (\<lambda>m i. m([alphabet ! i] \<mapsto> int i)) Map.empty [0..<length alphabet]"

fun decodeChars :: "(jsstring \<rightharpoonup> int) \<Rightarrow> int \<Rightarrow> int \<Rightarrow> jsstring list \<Rightarrow> error + int" where
  "decodeChars charIndex base num [] = Inr num"
| "decodeChars charIndex base num (c # cs) =
     (case charIndex c of
        None \<Rightarrow> Inl INVALID_ALPHABET
      | Some idx \<Rightarrow> decodeChars charIndex base (num * base + idx) cs)"

function ceilLog2 :: "nat \<Rightarrow> nat" where
  "ceilLog2 n = (if n \<le> 1 then 0 else Suc (ceilLog2 ((n + 1) div 2)))"
  by pat_completeness auto
termination
  by (relation "measure id") auto

declare ceilLog2.simps [simp del]

function numToBytes :: "int \<Rightarrow> byte list \<Rightarrow> byte list" where
  "numToBytes num bytes =
     (if num > 0 then numToBytes (drop_bit 8 num) (word_of_int (num AND 0xff) # bytes)
      else bytes)"
  by pat_completeness auto
termination
proof (relation "measure (\<lambda>(num, bytes). nat num)")
  show "wf (measure (\<lambda>(num, bytes). nat num))"
    by simp
next
  fix num :: int and bytes :: "byte list"
  assume "0 < num"
  then have "num div 2 ^ 8 < num"
    by (intro int_div_less_self) auto
  then show "((drop_bit 8 num, word_of_int (num AND 0xff) # bytes), (num, bytes))
      \<in> measure (\<lambda>(num, bytes). nat num)"
    using \<open>0 < num\<close> by (simp add: drop_bit_eq_div)
qed

declare numToBytes.simps [simp del]

definition decodeBase :: "jsstring \<Rightarrow> jsstring \<Rightarrow> error + byte list" where
  "decodeBase str alphabet =
     (case validateAlphabet alphabet of
        Inl e \<Rightarrow> Inl e
      | Inr u \<Rightarrow>
          (case decodeChars (buildCharIndex alphabet) (int (length alphabet)) 0 (codePoints str) of
             Inl e \<Rightarrow> Inl e
           | Inr num \<Rightarrow>
               let bitLength = length str * ceilLog2 (length alphabet);
                   byteLength = (bitLength + 7) div 8
               in if num = 0 then Inr (replicate byteLength 0)
                  else
                    let bytes = numToBytes num []
                    in Inr (replicate (byteLength - length bytes) 0 @ bytes)))"

text \<open>
  The length tracking that a caller of the codec does outside of it: the decoded bytes
  are cut on the left, or filled with zero bytes on the left, to the length that the
  caller has kept.
\<close>

definition fitToLength :: "nat \<Rightarrow> byte list \<Rightarrow> byte list" where
  "fitToLength n bytes =
     (if n \<le> length bytes then drop (length bytes - n) bytes
      else replicate (n - length bytes) 0 @ bytes)"

section \<open>UUID plugin (plugins/uuid)\<close>

definition formatUuid :: "byte list \<Rightarrow> string" where
  "formatUuid bytes =
     (let hex = toHex bytes
      in take 8 hex @ ''-'' @ take 4 (drop 8 hex) @ ''-'' @ take 4 (drop 12 hex) @ ''-''
         @ take 4 (drop 16 hex) @ ''-'' @ take 12 (drop 20 hex))"

definition generateV4 :: "UidKernel \<Rightarrow> string" where
  "generateV4 krn =
     (let bytes = kernelRandom krn 16;
          bytes = bytes[6 := (bytes ! 6 AND 0x0f) OR 0x40];
          bytes = bytes[8 := (bytes ! 8 AND 0x3f) OR 0x80]
      in formatUuid bytes)"

text \<open>
  \<open>TypedArray.prototype.set(source, offset)\<close> for a source that fits: the elements from
  \<open>offset\<close> on are replaced by the source.
\<close>

definition setAt :: "byte list \<Rightarrow> byte list \<Rightarrow> nat \<Rightarrow> byte list" where
  "setAt bytes source offset = take offset bytes @ source @ drop (offset + length source) bytes"

text \<open>
  \<open>generateV7\<close>; \<open>timestampArg\<close> is the optional argument \<open>timestamp\<close> and \<open>now\<close> the reading of
  \<open>Date.now()\<close> that replaces a missing one. The loop runs \<open>i = 5, 4, ..., 0\<close> and stores
  \<open>(ts >> 8 i) & 0xff\<close> in \<open>bytes[i]\<close>.
\<close>

definition generateV7 :: "UidKernel \<Rightarrow> int \<Rightarrow> int option \<Rightarrow> string" where
  "generateV7 krn now timestampArg =
     (let ts = (case timestampArg of None \<Rightarrow> now | Some t \<Rightarrow> t);
          random = kernelRandom krn 10;
          bytes = replicate 16 0;
          bytes = foldl (\<lambda>bs i. bs[i := word_of_int (drop_bit (i * 8) ts AND 0xff)]) bytes
                    (rev [0..<6]);
          bytes = bytes[6 := (bytes ! 6 AND 0x0f) OR 0x70];
          bytes = bytes[8 := (bytes ! 8 AND 0x3f) OR 0x80];
          bytes = bytes[6 := (bytes ! 6 AND 0xf0) OR (random ! 0 AND 0x0f)];
          bytes = bytes[7 := random ! 1];
          bytes = bytes[8 := (bytes ! 8 AND 0xc0) OR (random ! 2 AND 0x3f)];
          bytes = setAt bytes (drop 3 random) 9
      in formatUuid bytes)"

text \<open>\<open>isValidUuid\<close>: the pattern of 8, 4, 4, 4 and 12 hexadecimal digits, in either case.\<close>

definition isHexDigit :: "char \<Rightarrow> bool" where
  "isHexDigit c = (c \<in> set ''0123456789abcdefABCDEF'')"

definition isValidUuid :: "string \<Rightarrow> bool" where
  "isValidUuid ident =
     (length ident = 36
      \<and> list_all isHexDigit (take 8 ident) \<and> ident ! 8 = CHR ''-''
      \<and> list_all isHexDigit (take 4 (drop 9 ident)) \<and> ident ! 13 = CHR ''-''
      \<and> list_all isHexDigit (take 4 (drop 14 ident)) \<and> ident ! 18 = CHR ''-''
      \<and> list_all isHexDigit (take 4 (drop 19 ident)) \<and> ident ! 23 = CHR ''-''
      \<and> list_all isHexDigit (drop 24 ident))"

text \<open>
  \<open>parseInt(s, 16)\<close> on a string without sign, prefix or white space: the value of the
  longest run of hexadecimal digits at its start, \<open>NaN\<close> (here \<open>None\<close>) when there is none.
  A \<open>NaN\<close> stored in a \<open>Uint8Array\<close> is 0.
\<close>

definition hexDigitValue :: "char \<Rightarrow> nat" where
  "hexDigitValue c =
     (let n = (of_char c :: nat)
      in if 48 \<le> n \<and> n \<le> 57 then n - 48
         else if 97 \<le> n \<and> n \<le> 102 then n - 87
         else n - 55)"

definition parseInt16 :: "string \<Rightarrow> nat option" where
  "parseInt16 s =
     (let ds = takeWhile isHexDigit s
      in if ds = [] then None else Some (foldl (\<lambda>a c. a * 16 + hexDigitValue c) 0 ds))"

datatype Variant = RFC4122 | NCS | Microsoft | Future

record UuidParsed =
  version :: nat
  variant :: Variant
  bytes :: "byte list"
  timestamp :: "int option"

definition parseUuid :: "string \<Rightarrow> UuidParsed option" where
  "parseUuid ident =
     (if \<not> isValidUuid ident then None
      else
        let hex = filter (\<lambda>c. c \<noteq> CHR ''-'') ident;
            bytes = map (\<lambda>i. case parseInt16 (take 2 (drop (i * 2) hex)) of
                                None \<Rightarrow> 0 | Some v \<Rightarrow> (of_nat v :: byte)) [0..<16];
            version = unat (drop_bit 4 (bytes ! 6) AND 0x0f);
            variantBits = unat (drop_bit 6 (bytes ! 8));
            variant = (if variantBits = 0 then NCS
                       else if variantBits = 2 then Microsoft
                       else if variantBits = 3 then Future
                       else RFC4122);
            result = \<lparr> version = version, variant = variant, bytes = bytes, timestamp = None \<rparr>
        in if version = 7
           then Some (result\<lparr>timestamp :=
                        Some (foldl (\<lambda>t b. push_bit 8 t OR uint b) 0 (take 6 bytes))\<rparr>)
           else Some result)"

section \<open>ULID plugin (plugins/ulid)\<close>

definition CROCKFORD_BASE32 :: jsstring where
  "CROCKFORD_BASE32 = utf16 ''0123456789ABCDEFGHJKMNPQRSTVWXYZ''"

text \<open>The module variables \<open>lastTime\<close> and \<open>lastRandom\<close>.\<close>

record UlidState =
  ulidLastTime :: int
  lastRandom :: int

text \<open>
  \<open>encodeTime\<close>: for \<open>i = length - 1, ..., 0\<close> in turn, the character of the five bits
  \<open>(ts >> 5 i) & 0x1f\<close> is put in front of \<open>chars\<close> (\<open>unshift\<close>).
\<close>

definition encodeTime :: "int \<Rightarrow> nat \<Rightarrow> jsstring" where
  "encodeTime ts len =
     foldl (\<lambda>chars i. (CROCKFORD_BASE32 ! nat (drop_bit (i * 5) ts AND 0x1f)) # chars) []
       (rev [0..<len])"

text \<open>
  \<open>String.prototype.toUpperCase\<close> of a string of one code unit. The cases are the code
  units whose upper case consists of ASCII characters: the letters \<open>a\<close> to \<open>z\<close>, the sharp
  s (\<open>SS\<close>), the dotless i (\<open>I\<close>), the long s (\<open>S\<close>) and the Latin ligatures \<open>U+FB00\<close> to
  \<open>U+FB06\<close> (\<open>FF\<close>, \<open>FI\<close>, \<open>FL\<close>, \<open>FFI\<close>, \<open>FFL\<close>, \<open>ST\<close>, \<open>ST\<close>). For every other code unit
  the upper case is the unit itself or has a code unit outside ASCII; the model leaves
  the unit as it is, which gives the same answer when the result is searched for in a
  string of ASCII characters, the only use the code makes of it.
\<close>

definition toUpperCase :: "codeunit \<Rightarrow> jsstring" where
  "toUpperCase c =
     (if 0x61 \<le> c \<and> c \<le> 0x7A then [c - 0x20]
      else if c = 0xDF then utf16 ''SS''
      else if c = 0x131 then utf16 ''I''
      else if c = 0x17F then utf16 ''S''
      else if c = 0xFB00 then utf16 ''FF''
      else if c = 0xFB01 then utf16 ''FI''
      else if c = 0xFB02 then utf16 ''FL''
      else if c = 0xFB03 then utf16 ''FFI''
      else if c = 0xFB04 then utf16 ''FFL''
      else if c = 0xFB05 then utf16 ''ST''
      else if c = 0xFB06 then utf16 ''ST''
      else [c])"

text \<open>
  \<open>String.prototype.indexOf(searchString)\<close>: the first position at which the search
  string occurs in the string, \<open>-1\<close> when it occurs nowhere.
\<close>

fun indexOfFrom :: "int \<Rightarrow> jsstring \<Rightarrow> jsstring \<Rightarrow> int" where
  "indexOfFrom i [] pat = (if pat = [] then i else - 1)"
| "indexOfFrom i (x # xs) pat =
     (if take (length pat) (x # xs) = pat then i else indexOfFrom (i + 1) xs pat)"

definition indexOf :: "jsstring \<Rightarrow> jsstring \<Rightarrow> int" where
  "indexOf s pat = indexOfFrom 0 s pat"

text \<open>
  \<open>decodeTime\<close>: each code unit \<open>timeStr[i]\<close> is put in upper case and searched for in the
  alphabet; when it is not found, the loop goes on with the next one (\<open>continue\<close>). The
  result is \<open>Number(timestamp)\<close>.
\<close>

definition decodeTime :: "jsstring \<Rightarrow> JSNumber" where
  "decodeTime timeStr =
     bigintToNumber
       (foldl (\<lambda>ts c.
                 let index = indexOf CROCKFORD_BASE32 (toUpperCase c)
                 in if index = - 1 then ts else push_bit 5 ts OR index)
          0 timeStr)"

definition generateUlid :: "UidKernel \<Rightarrow> int \<Rightarrow> int option \<Rightarrow> error + jsstring" where
  "generateUlid krn now timestampArg =
     (let ts = (case timestampArg of None \<Rightarrow> now | Some t \<Rightarrow> t);
          timeBytes = kernelRandom krn 10;
          timePart = encodeTime ts 10
      in case encodeBase timeBytes CROCKFORD_BASE32 of
           Inl e \<Rightarrow> Inl e
         | Inr encoded \<Rightarrow> Inr (timePart @ take 16 encoded))"

text \<open>
  The increment loop of \<open>generateMonotonicUlid\<close>:
  \<open>for (i = length - 1; i >= 0 && carry > 0; i--)\<close>; the first argument is \<open>i + 1\<close>.
\<close>

fun incrementLoop :: "nat \<Rightarrow> int \<Rightarrow> byte list \<Rightarrow> byte list" where
  "incrementLoop 0 carry randomBytes = randomBytes"
| "incrementLoop (Suc i) carry randomBytes =
     (if carry > 0
      then let val = uint (randomBytes ! i) + carry
           in incrementLoop i (drop_bit 8 val) (randomBytes[i := word_of_int (val AND 0xff)])
      else randomBytes)"

text \<open>
  The state function that \<open>ulidPlugin.install\<close> passes to \<open>generateMonotonicUlid\<close>; \<open>now\<close>
  is its reading of \<open>Date.now()\<close>.
\<close>

definition getState :: "int \<Rightarrow> UlidState \<Rightarrow> (int \<times> int) \<times> UlidState" where
  "getState now st =
     (let st = (if now \<noteq> ulidLastTime st then st\<lparr>ulidLastTime := now, lastRandom := 0\<rparr> else st)
      in ((now, lastRandom st), st))"

definition generateMonotonicUlid ::
  "UidKernel \<Rightarrow> int \<Rightarrow> UlidState \<Rightarrow> (error + jsstring) \<times> UlidState" where
  "generateMonotonicUlid krn clock st =
     (case getState clock st of
        ((now, lr), st) \<Rightarrow>
          let timePart = encodeTime now 10;
              randomBytes = kernelRandom krn 10;
              randomBytes = (if now = ulidLastTime st \<and> lr > 0
                             then incrementLoop (length randomBytes) 1 randomBytes
                             else randomBytes);
              st = st\<lparr>ulidLastTime := now, lastRandom := lr + 1\<rparr>
          in case encodeBase randomBytes CROCKFORD_BASE32 of
               Inl e \<Rightarrow> (Inl e, st)
             | Inr encoded \<Rightarrow> (Inr (timePart @ take 16 encoded), st))"

definition ulidInstall :: UlidState where
  "ulidInstall = \<lparr> ulidLastTime = 0, lastRandom = 0 \<rparr>"

text \<open>\<open>extractTimestamp\<close>; the \<open>Date\<close> is represented by its time value.\<close>

definition extractTimestamp :: "jsstring \<Rightarrow> JSNumber" where
  "extractTimestamp ident = dateValue (decodeTime (take 10 ident))"

text \<open>
  \<open>isValidUlid\<close>: 26 code units that match the class of the alphabet characters under
  the flag \<open>i\<close>. Without the flag \<open>u\<close>, a code unit is compared by its canonical form: its
  upper case, unless that is longer than one code unit or is an ASCII character for a
  unit outside ASCII. So the canonical form of \<open>a\<close> to \<open>z\<close> is \<open>A\<close> to \<open>Z\<close>, and that of a unit
  outside ASCII is outside ASCII; the model leaves such a unit as it is.
\<close>

definition canonicalize :: "codeunit \<Rightarrow> codeunit" where
  "canonicalize c = (if 0x61 \<le> c \<and> c \<le> 0x7A then c - 0x20 else c)"

definition isValidUlid :: "jsstring \<Rightarrow> bool" where
  "isValidUlid ident =
     (if length ident \<noteq> 26 then False
      else list_all (\<lambda>c. canonicalize c \<in> set CROCKFORD_BASE32) ident)"

section \<open>CUID2 plugin (plugins/cuid2)\<close>

definition LETTERS :: string where
  "LETTERS = ''abcdefghijklmnopqrstuvwxyz''"

definition ALPHABET :: string where
  "ALPHABET = ''0123456789abcdefghijklmnopqrstuvwxyz''"

definition DEFAULT_LENGTH :: int where "DEFAULT_LENGTH = 24"
definition MIN_LENGTH :: int where "MIN_LENGTH = 24"
definition MAX_LENGTH :: int where "MAX_LENGTH = 32"

text \<open>
  The loop that builds \<open>randomStr\<close>: one character for each byte, left as soon as the
  string has \<open>randomLength\<close> characters.
\<close>

fun randomStrLoop :: "int \<Rightarrow> string \<Rightarrow> byte list \<Rightarrow> string" where
  "randomStrLoop randomLength randomStr [] = randomStr"
| "randomStrLoop randomLength randomStr (byte # rest) =
     (let randomStr = randomStr @ [ALPHABET ! (unat byte mod 36)]
      in if int (length randomStr) \<ge> randomLength then randomStr
         else randomStrLoop randomLength randomStr rest)"

text \<open>
  \<open>generateCuid2\<close>. \<open>letter\<close> is the value of \<open>Math.floor(Math.random() * LETTERS.length)\<close>,
  a number from 0 to 25, and \<open>now\<close> the reading of \<open>Date.now()\<close>.
  \<open>Math.ceil(randomLength * 0.75)\<close> is \<open>(3 randomLength + 3) div 4\<close>.
\<close>

definition generateCuid2 :: "UidKernel \<Rightarrow> nat \<Rightarrow> int \<Rightarrow> int \<Rightarrow> string \<Rightarrow> error + string" where
  "generateCuid2 krn letter now len fingerprint =
     (case validateSize len MIN_LENGTH MAX_LENGTH of
        Inl e \<Rightarrow> Inl e
      | Inr u \<Rightarrow>
          let firstLetter = [LETTERS ! letter];
              timestamp = numberToString 36 now;
              randomLength = max 8 (len - int (length firstLetter) - int (length timestamp)
                                      - int (length fingerprint));
              randomBytes = kernelRandom krn (nat ((randomLength * 3 + 3) div 4));
              randomStr = randomStrLoop randomLength [] randomBytes;
              ident = firstLetter @ timestamp @ randomStr @ fingerprint
          in Inr (take (nat len) ident))"

text \<open>\<open>isValidCuid2\<close>: the patterns \<open>/^[a-z]/\<close> and \<open>/^[a-z0-9]+$/i\<close>.\<close>

definition isLowerLetter :: "char \<Rightarrow> bool" where
  "isLowerLetter c = (c \<in> set ''abcdefghijklmnopqrstuvwxyz'')"

definition isAlphaNumeric :: "char \<Rightarrow> bool" where
  "isAlphaNumeric c =
     (c \<in> set ''abcdefghijklmnopqrstuvwxyzABCDEFGHIJKLMNOPQRSTUVWXYZ0123456789'')"

definition isValidCuid2 :: "string \<Rightarrow> bool" where
  "isValidCuid2 ident =
     (if int (length ident) < MIN_LENGTH \<or> int (length ident) > MAX_LENGTH then False
      else if \<not> isLowerLetter (ident ! 0) then False
      else list_all isAlphaNumeric ident)"

section \<open>Snowflake plugin (plugins/snowflake)\<close>

definition DEFAULT_EPOCH :: int where
  "DEFAULT_EPOCH = 1609459200000"

record SnowflakeConfig =
  workerId :: int
  datacenterId :: int
  epoch :: "JSNumber option"

record SnowflakeState =
  config :: "SnowflakeConfig option"
  sequence :: int
  lastTime :: int

text \<open>\<open>SnowflakeParsed\<close>; the \<open>Date\<close> is represented by its millisecond value.\<close>

record SnowflakeParsed =
  parsedTimestamp :: int
  parsedDatacenterId :: int
  parsedWorkerId :: int
  parsedSequence :: int

text \<open>
  \<open>validateSnowflakeConfig\<close>: the numbers of the model are integers, so
  \<open>Number.isInteger\<close> holds and the range checks remain.
\<close>

definition validateSnowflakeConfig :: "SnowflakeConfig \<Rightarrow> error + unit" where
  "validateSnowflakeConfig cfg =
     (if workerId cfg < 0 \<or> workerId cfg > 31 then Inl INVALID_SIZE
      else if datacenterId cfg < 0 \<or> datacenterId cfg > 31 then Inl INVALID_SIZE
      else Inr ())"

text \<open>
  The busy wait \<open>while (Date.now() <= now) {}\<close> reads the clock until it shows a later
  millisecond. The readings that it will see are a list; the loop is left at the first
  reading above \<open>now\<close>, and a list without one stands for a clock that does not advance:
  the loop is not left.
\<close>

fun busyWait :: "int \<Rightarrow> int list \<Rightarrow> bool" where
  "busyWait now [] = False"
| "busyWait now (t # ts) = (if t \<le> now then busyWait now ts else True)"

text \<open>
  The last lines of \<open>generateSnowflake\<close> (\<open>// Build snowflake\<close>): the layout. The epoch
  is the unchecked number of the configuration; \<open>now - epoch\<close> is the difference for an
  integer epoch (the exact one, which is what the doubles give below \<open>2^53\<close>), and \<open>NaN\<close>
  or an infinity for such an epoch, on which \<open>BigInt\<close> throws.
\<close>

definition numberMinus :: "int \<Rightarrow> JSNumber \<Rightarrow> JSNumber" where
  "numberMinus a x = (case x of Integer v \<Rightarrow> Integer (a - v) | NaN \<Rightarrow> NaN | Infinity \<Rightarrow> Infinity)"

definition buildSnowflake :: "SnowflakeConfig \<Rightarrow> JSNumber \<Rightarrow> int \<Rightarrow> int \<Rightarrow> error + int" where
  "buildSnowflake cfg ep now sq =
     (case numberToBigInt (numberMinus now ep) of
        Inl e \<Rightarrow> Inl e
      | Inr ts \<Rightarrow>
          let dc = datacenterId cfg AND 0x1f;
              wk = workerId cfg AND 0x1f
          in Inr (push_bit 22 ts OR push_bit 17 dc OR push_bit 12 wk OR sq))"

text \<open>
  \<open>generateSnowflake\<close>, with the module's \<open>state\<close> passed in and returned, \<open>now\<close> the
  reading of \<open>Date.now()\<close> at entry and \<open>ticks\<close> the later readings that the busy wait
  sees. The result is \<open>None\<close> when the busy wait is not left. An error that is thrown
  comes with the state at the moment of the throw.
\<close>

definition generateSnowflake ::
  "SnowflakeConfig \<Rightarrow> int \<Rightarrow> int list \<Rightarrow> SnowflakeState
     \<Rightarrow> ((error + string) \<times> SnowflakeState) option" where
  "generateSnowflake cfg now ticks st =
     (let ep = (case epoch cfg of None \<Rightarrow> Integer DEFAULT_EPOCH | Some e \<Rightarrow> e)
      in if now < lastTime st then Some (Inl CLOCK_BACKWARDS, st)
         else
           let st1 = (if now = lastTime st
                      then st\<lparr>sequence := (sequence st + 1) AND 0xfff\<rparr>
                      else st\<lparr>sequence := 0\<rparr>)
           in if now = lastTime st \<and> sequence st1 = 0 \<and> \<not> busyWait now ticks then None
              else
                let st2 = st1\<lparr>lastTime := now\<rparr>
                in case buildSnowflake cfg ep now (sequence st2) of
                     Inl e \<Rightarrow> Some (Inl e, st2)
                   | Inr snowflake \<Rightarrow> Some (Inr (bigintToString snowflake), st2))"

text \<open>
  \<open>parseSnowflake\<close>, with an integer as the argument \<open>epoch\<close>.
\<close>

definition parseSnowflake :: "string \<Rightarrow> int \<Rightarrow> error + SnowflakeParsed" where
  "parseSnowflake ident ep =
     (case stringToBigInt ident of
        Inl e \<Rightarrow> Inl e
      | Inr snowflake \<Rightarrow>
          Inr \<lparr> parsedTimestamp = (drop_bit 22 snowflake AND 0x1ffffffffff) + ep,
                parsedDatacenterId = drop_bit 17 snowflake AND 0x1f,
                parsedWorkerId = drop_bit 12 snowflake AND 0x1f,
                parsedSequence = snowflake AND 0xfff \<rparr>)"

text \<open>\<open>isValidSnowflake\<close>: the pattern of one to twenty decimal digits.\<close>

definition isValidSnowflake :: "string \<Rightarrow> bool" where
  "isValidSnowflake ident = (1 \<le> length ident \<and> length ident \<le> 20 \<and> list_all isDigit ident)"

text \<open>
  The state that \<open>snowflakePlugin.install\<close> sets and the functions that it registers: the
  generator itself and \<open>configure\<close>.
\<close>

definition snowflakeInstall :: SnowflakeState where
  "snowflakeInstall = \<lparr> config = None, sequence = 0, lastTime = 0 \<rparr>"

definition snowflakeApi ::
  "int \<Rightarrow> int list \<Rightarrow> SnowflakeState \<Rightarrow> ((error + string) \<times> SnowflakeState) option" where
  "snowflakeApi now ticks st =
     (case config st of
        None \<Rightarrow> Some (Inl NOT_CONFIGURED, st)
      | Some cfg \<Rightarrow> generateSnowflake cfg now ticks st)"

definition snowflakeConfigure ::
  "SnowflakeConfig \<Rightarrow> SnowflakeState \<Rightarrow> (error + unit) \<times> SnowflakeState" where
  "snowflakeConfigure cfg st =
     (case validateSnowflakeConfig cfg of
        Inl e \<Rightarrow> (Inl e, st)
      | Inr u \<Rightarrow> (Inr (), st\<lparr>config := Some cfg\<rparr>))"


chapter \<open>Properties\<close>

section \<open>Snowflake\<close>

subsection \<open>Decimal strings\<close>

lemma decimal_digit_char:
  assumes "d < 10"
  shows "isDigit (DIGITS ! d) \<and> of_char (DIGITS ! d) - 48 = d"
proof -
  from assms have "d \<in> {0, 1, 2, 3, 4, 5, 6, 7, 8, 9}" by auto
  then show ?thesis by (auto simp: isDigit_def DIGITS_def)
qed

lemma decimalValue_append:
  "decimalValue acc (xs @ ys) =
     (case decimalValue acc xs of None \<Rightarrow> None | Some a \<Rightarrow> decimalValue a ys)"
  by (induction xs arbitrary: acc) auto

lemma decimalValue_natToString: "decimalValue 0 (natToString 10 n) = Some n"
proof (induction n rule: less_induct)
  case (less n)
  show ?case
  proof (cases "n < 10")
    case True
    then show ?thesis
      using decimal_digit_char [of n] by (subst natToString.simps) simp
  next
    case False
    then have "n div 10 < n" by simp
    from less [OF this] False show ?thesis
      using decimal_digit_char [of "n mod 10"]
      by (subst natToString.simps) (simp add: decimalValue_append)
  qed
qed

lemma natToString_nonempty: "natToString radix n \<noteq> []"
  by (subst natToString.simps) simp

lemma natToString_10_hd: "isDigit (hd (natToString 10 n))"
proof (induction n rule: less_induct)
  case (less n)
  show ?case
  proof (cases "n < 10")
    case True
    then show ?thesis
      using decimal_digit_char [of n] by (subst natToString.simps) simp
  next
    case False
    then have "n div 10 < n" by simp
    from less [OF this] False show ?thesis
      using natToString_nonempty [of 10 "n div 10"]
      by (subst natToString.simps) simp
  qed
qed

lemma stringToBigInt_bigintToString:
  assumes "0 \<le> v"
  shows "stringToBigInt (bigintToString v) = Inr v"
proof -
  obtain c cs where s: "natToString 10 (nat v) = c # cs"
    using natToString_nonempty [of 10 "nat v"] by (cases "natToString 10 (nat v)") auto
  have "isDigit c"
    using natToString_10_hd [of "nat v"] s by simp
  then have c: "c \<noteq> CHR ''-''" "c \<noteq> CHR ''+''"
    by (auto simp: isDigit_def)
  have "parseDecimal (c # cs) = Inr (nat v)"
    using decimalValue_natToString [of "nat v"] s by (simp add: parseDecimal_def)
  then show ?thesis
    using assms c s by (simp add: stringToBigInt_def bigintToString_def numberToString_def)
qed

subsection \<open>Bit fields of an integer\<close>

lemma and_mask_id:
  fixes x :: int
  assumes "0 \<le> x" "x < 2 ^ n"
  shows "x AND mask n = x"
  using assms by (simp add: take_bit_eq_mask [symmetric] take_bit_int_eq_self)

lemma mask_41: "(0x1ffffffffff :: int) = mask 41"
  by (simp add: mask_eq_exp_minus_1)

lemma mask_5: "(0x1f :: int) = mask 5"
  by (simp add: mask_eq_exp_minus_1)

lemma mask_12: "(0xfff :: int) = mask 12"
  by (simp add: mask_eq_exp_minus_1)

lemma drop_bit_push_bit_small:
  fixes x :: int
  assumes x: "0 \<le> x" "x < 2 ^ k" and le: "m + k \<le> n"
  shows "drop_bit n (push_bit m x) = 0"
proof -
  have "(2::int) ^ k \<le> 2 ^ (n - m)"
    by (rule power_increasing) (use le in auto)
  then have "x < 2 ^ (n - m)"
    using x(2) by linarith
  then have "drop_bit (n - m) x = 0"
    using x(1) by (simp add: drop_bit_eq_div)
  then show ?thesis
    using le by (simp add: drop_bit_push_bit)
qed

lemma snowflake_fields:
  fixes t d w s :: int
  assumes "0 \<le> t" "t < 2 ^ 41" "0 \<le> d" "d < 2 ^ 5" "0 \<le> w" "w < 2 ^ 5" "0 \<le> s" "s < 2 ^ 12"
  defines "v \<equiv> push_bit 22 t OR push_bit 17 d OR push_bit 12 w OR s"
  shows "drop_bit 22 v AND 0x1ffffffffff = t"
    and "drop_bit 17 v AND 0x1f = d"
    and "drop_bit 12 v AND 0x1f = w"
    and "v AND 0xfff = s"
    and "0 \<le> v"
proof -
  have s0: "drop_bit 22 s = 0" "drop_bit 17 s = 0" "drop_bit 12 s = 0"
    using drop_bit_push_bit_small [of s 12 0] assms by simp_all
  have w0: "drop_bit 22 (push_bit 12 w) = 0" "drop_bit 17 (push_bit 12 w) = 0"
    using drop_bit_push_bit_small [of w 5 12] assms by simp_all
  have d0: "drop_bit 22 (push_bit 17 d) = 0"
    using drop_bit_push_bit_small [of d 5 17] assms by simp_all
  show "drop_bit 22 v AND 0x1ffffffffff = t"
    unfolding mask_41 v_def using assms(1,2) s0 w0 d0 by (simp add: and_mask_id drop_bit_push_bit)
  have "drop_bit 17 v = push_bit 5 t OR d"
    unfolding v_def using s0 w0 by (simp add: drop_bit_push_bit)
  then show "drop_bit 17 v AND 0x1f = d"
    unfolding mask_5 using assms(3,4)
    by (simp add: take_bit_eq_mask [symmetric] take_bit_push_bit take_bit_int_eq_self)
  have "drop_bit 12 v = push_bit 10 t OR push_bit 5 d OR w"
    unfolding v_def using s0 by (simp add: drop_bit_push_bit)
  then show "drop_bit 12 v AND 0x1f = w"
    unfolding mask_5 using assms(5,6)
    by (simp add: take_bit_eq_mask [symmetric] take_bit_push_bit take_bit_int_eq_self)
  show "v AND 0xfff = s"
    unfolding mask_12 v_def using assms(7,8)
    by (simp add: take_bit_eq_mask [symmetric] take_bit_push_bit take_bit_int_eq_self)
  show "0 \<le> v"
    unfolding v_def using assms by simp
qed

lemma snowflake_bound:
  fixes t d w s :: int
  assumes "0 \<le> t" "t < 2 ^ 41" "0 \<le> d" "d < 2 ^ 5" "0 \<le> w" "w < 2 ^ 5" "0 \<le> s" "s < 2 ^ 12"
  shows "push_bit 22 t OR push_bit 17 d OR push_bit 12 w OR s < 2 ^ 63"
proof -
  have t: "0 \<le> push_bit 22 t" "push_bit 22 t < 2 ^ 63"
    using assms(1,2) by (simp_all add: push_bit_eq_mult)
  have d: "0 \<le> push_bit 17 d" "push_bit 17 d < 2 ^ 63"
    using assms(3,4) by (simp_all add: push_bit_eq_mult)
  have w: "0 \<le> push_bit 12 w" "push_bit 12 w < 2 ^ 63"
    using assms(5,6) by (simp_all add: push_bit_eq_mult)
  have s: "s < 2 ^ 63"
    using assms(8) by simp
  have ws: "push_bit 12 w OR s < 2 ^ 63"
    by (rule OR_upper [OF w s])
  have dws: "push_bit 17 d OR (push_bit 12 w OR s) < 2 ^ 63"
    by (rule OR_upper [OF d ws])
  have "push_bit 22 t OR (push_bit 17 d OR (push_bit 12 w OR s)) < 2 ^ 63"
    by (rule OR_upper [OF t dws])
  then show ?thesis by (simp add: or.assoc)
qed

lemma and_4095_range: "0 \<le> (x::int) AND 0xfff \<and> x AND 0xfff < 2 ^ 12"
  unfolding mask_12 using take_bit_int_less_exp [of 12 x]
  by (simp add: take_bit_eq_mask [symmetric])

lemma busyWait_iff: "busyWait now ticks \<longleftrightarrow> (\<exists>t \<in> set ticks. now < t)"
  by (induction ticks) auto

text \<open>
  Claim C4. With a worker and a datacenter identifier of five bits (the range that
  \<open>configure\<close> accepts), an epoch \<open>ep\<close> (the configured one, or the default one when none
  is configured) with a relative timestamp \<open>now - ep\<close> of 41 bits, and a clock that
  has not moved backwards (and that advances during the busy wait, when the sequence
  number wraps to 0), a call of the generator returns the decimal string of
  \<open>v = ((now - epoch) << 22) | (datacenterId << 17) | (workerId << 12) | sequence\<close>,
  where \<open>sequence\<close> is the sequence number that the call has stored; parsing that string
  with the configured epoch gives back the worker, the datacenter, the sequence number
  and the absolute timestamp \<open>now\<close>; and \<open>v\<close> fits in 64 bits.
\<close>

theorem snowflake_generate_parse:
  assumes worker: "0 \<le> workerId cfg" "workerId cfg \<le> 31"
    and datacenter: "0 \<le> datacenterId cfg" "datacenterId cfg \<le> 31"
    and ep: "(case epoch cfg of None \<Rightarrow> Integer DEFAULT_EPOCH | Some e \<Rightarrow> e) = Integer ep"
    and relative: "0 \<le> now - ep" "now - ep < 2 ^ 41"
    and clock: "lastTime st \<le> now"
    and sq: "sq = (if now = lastTime st then (sequence st + 1) AND 0xfff else 0)"
    and wait: "now = lastTime st \<and> sq = 0 \<longrightarrow> busyWait now ticks"
    and v: "v = push_bit 22 (now - ep) OR push_bit 17 (datacenterId cfg)
                OR push_bit 12 (workerId cfg) OR sq"
  shows "generateSnowflake cfg now ticks st
           = Some (Inr (bigintToString v), st\<lparr>sequence := sq, lastTime := now\<rparr>)
         \<and> parseSnowflake (bigintToString v) ep
           = Inr \<lparr> parsedTimestamp = now, parsedDatacenterId = datacenterId cfg,
                   parsedWorkerId = workerId cfg, parsedSequence = sq \<rparr>
         \<and> 0 \<le> v \<and> v < 2 ^ 63"
proof -
  have sq_range: "0 \<le> sq" "sq < 2 ^ 12"
    using and_4095_range [of "sequence st + 1"] by (simp_all add: sq)
  have wk: "workerId cfg AND 0x1f = workerId cfg"
    unfolding mask_5 using worker by (intro and_mask_id) simp_all
  have dc: "datacenterId cfg AND 0x1f = datacenterId cfg"
    unfolding mask_5 using datacenter by (intro and_mask_id) simp_all
  have build: "buildSnowflake cfg (Integer ep) now sq = Inr v"
    by (simp add: buildSnowflake_def numberMinus_def numberToBigInt_def wk dc v)
  have gen: "generateSnowflake cfg now ticks st
           = Some (Inr (bigintToString v), st\<lparr>sequence := sq, lastTime := now\<rparr>)"
  proof (cases "now = lastTime st")
    case True
    with wait sq have "(sequence st + 1) AND 0xfff = 0 \<longrightarrow> busyWait (lastTime st) ticks"
      by simp
    with True build show ?thesis
      by (auto simp: generateSnowflake_def Let_def sq ep)
  next
    case False
    with clock build show ?thesis
      by (simp add: generateSnowflake_def Let_def sq ep)
  qed
  have w5: "workerId cfg < 2 ^ 5" and d5: "datacenterId cfg < 2 ^ 5"
    using worker datacenter by simp_all
  note f = snowflake_fields [OF relative(1) relative(2) datacenter(1) d5 worker(1) w5 sq_range,
      folded v]
  have bound: "v < 2 ^ 63"
    unfolding v
    by (rule snowflake_bound [OF relative(1) relative(2) datacenter(1) d5 worker(1) w5 sq_range])
  have "stringToBigInt (bigintToString v) = Inr v"
    using f(5) by (rule stringToBigInt_bigintToString)
  then have "parseSnowflake (bigintToString v) ep
           = Inr \<lparr> parsedTimestamp = now, parsedDatacenterId = datacenterId cfg,
                   parsedWorkerId = workerId cfg, parsedSequence = sq \<rparr>"
    using f(1-4) by (simp add: parseSnowflake_def)
  with gen f(5) bound show ?thesis by simp
qed

lemma natToString_764: "natToString 10 7130316800000413696 = ''7130316800000413696''"
  by (simp add: natToString.simps DIGITS_def)

text \<open>
  The instance of the claim: \<open>workerId = 5\<close>, \<open>datacenterId = 3\<close>, \<open>epoch = 0\<close>,
  \<open>now = 1700000000000\<close> and sequence 0.
\<close>

theorem snowflake_generate_parse_witness:
  "generateSnowflake \<lparr>workerId = 5, datacenterId = 3, epoch = Some (Integer 0)\<rparr> 1700000000000 []
       \<lparr>config = Some \<lparr>workerId = 5, datacenterId = 3, epoch = Some (Integer 0)\<rparr>, sequence = 0, lastTime = 0\<rparr>
     = Some (Inr ''7130316800000413696'',
         \<lparr>config = Some \<lparr>workerId = 5, datacenterId = 3, epoch = Some (Integer 0)\<rparr>, sequence = 0,
            lastTime = 1700000000000\<rparr>)
   \<and> parseSnowflake ''7130316800000413696'' 0
     = Inr \<lparr> parsedTimestamp = 1700000000000, parsedDatacenterId = 3, parsedWorkerId = 5,
             parsedSequence = 0 \<rparr>
   \<and> (7130316800000413696 :: int) = push_bit 22 1700000000000 OR push_bit 17 3 OR push_bit 12 5"
  using snowflake_generate_parse [of "\<lparr>workerId = 5, datacenterId = 3, epoch = Some (Integer 0)\<rparr>" 0
      1700000000000
      "\<lparr>config = Some \<lparr>workerId = 5, datacenterId = 3, epoch = Some (Integer 0)\<rparr>, sequence = 0, lastTime = 0\<rparr>"
      0 "[]" 7130316800000413696]
  by (simp add: bigintToString_def numberToString_def natToString_764)

text \<open>
  The two errors of \<open>UidError\<close> that a call can throw, \<open>NOT_CONFIGURED\<close> and
  \<open>CLOCK_BACKWARDS\<close>, leave the state as it was; the first is thrown exactly when no
  configuration is set, the second when the clock reading is below \<open>lastTime\<close>.
\<close>

lemma snowflake_named_errors_leave_state:
  assumes "snowflakeApi now ticks st = Some (Inl e, st')"
    and "e = NOT_CONFIGURED \<or> e = CLOCK_BACKWARDS"
  shows "st' = st
         \<and> (if config st = None then e = NOT_CONFIGURED
            else e = CLOCK_BACKWARDS \<and> now < lastTime st)"
  using assms
  by (auto simp: snowflakeApi_def generateSnowflake_def Let_def
      buildSnowflake_def numberToBigInt_def
      split: option.splits if_splits sum.splits JSNumber.splits)

lemma snowflake_named_errors_thrown:
  "snowflakeApi now ticks (st\<lparr>config := None\<rparr>) = Some (Inl NOT_CONFIGURED, st\<lparr>config := None\<rparr>)"
  "now < lastTime st \<Longrightarrow>
     snowflakeApi now ticks (st\<lparr>config := Some cfg\<rparr>)
       = Some (Inl CLOCK_BACKWARDS, st\<lparr>config := Some cfg\<rparr>)"
  by (simp_all add: snowflakeApi_def generateSnowflake_def)

text \<open>
  Claim C10. A call of the Snowflake generator that throws should leave \<open>sequence\<close> and
  \<open>lastTime\<close> as they were. The two errors that the claim names do (the two lemmas
  above): they are thrown before any assignment. \<open>configure\<close> checks \<open>workerId\<close> and
  \<open>datacenterId\<close> and accepts every epoch, also \<open>NaN\<close>. With that epoch, a first call at
  clock reading 5 throws \<open>RangeError\<close> from \<open>BigInt(now - epoch)\<close> after \<open>lastTime\<close> has
  become 5, and a second call at the same reading throws it after \<open>sequence\<close> has
  become 1.
\<close>

theorem snowflake_RangeError_after_state_update:
  "snowflakeConfigure \<lparr>workerId = 1, datacenterId = 1, epoch = Some NaN\<rparr> snowflakeInstall
     = (Inr (), \<lparr>config = Some \<lparr>workerId = 1, datacenterId = 1, epoch = Some NaN\<rparr>,
                  sequence = 0, lastTime = 0\<rparr>)
   \<and> snowflakeApi 5 []
       \<lparr>config = Some \<lparr>workerId = 1, datacenterId = 1, epoch = Some NaN\<rparr>,
          sequence = 0, lastTime = 0\<rparr>
     = Some (Inl RangeError,
         \<lparr>config = Some \<lparr>workerId = 1, datacenterId = 1, epoch = Some NaN\<rparr>,
            sequence = 0, lastTime = 5\<rparr>)
   \<and> snowflakeApi 5 []
       \<lparr>config = Some \<lparr>workerId = 1, datacenterId = 1, epoch = Some NaN\<rparr>,
          sequence = 0, lastTime = 5\<rparr>
     = Some (Inl RangeError,
         \<lparr>config = Some \<lparr>workerId = 1, datacenterId = 1, epoch = Some NaN\<rparr>,
            sequence = 1, lastTime = 5\<rparr>)"
  by (simp add: snowflakeConfigure_def validateSnowflakeConfig_def snowflakeInstall_def
      snowflakeApi_def generateSnowflake_def buildSnowflake_def numberMinus_def numberToBigInt_def)

text \<open>
  Claim C9. \<open>isValidSnowflake\<close> should hold exactly for the strings of 1 to 20 decimal
  digits whose value fits in 64 bits. The string of twenty nines has the value
  \<open>99999999999999999999\<close>, which is not below \<open>2^64\<close>, and \<open>isValidSnowflake\<close> holds for it.
\<close>

theorem isValidSnowflake_beyond_64_bits:
  "isValidSnowflake ''99999999999999999999''
   \<and> stringToBigInt ''99999999999999999999'' = Inr 99999999999999999999
   \<and> (2 :: int) ^ 64 \<le> 99999999999999999999"
  by (simp add: isValidSnowflake_def isDigit_def stringToBigInt_def parseDecimal_def)


section \<open>The codec of arbitrary alphabets\<close>


subsection \<open>The character index\<close>

lemma buildCharIndex_upto:
  assumes "distinct alphabet" "n \<le> length alphabet" "i < n"
  shows "foldl (\<lambda>m i. m([alphabet ! i] \<mapsto> int i)) Map.empty [0..<n] [alphabet ! i]
         = Some (int i)"
  using assms(2,3)
proof (induction n)
  case 0
  then show ?case by simp
next
  case (Suc n)
  show ?case
  proof (cases "i = n")
    case True
    then show ?thesis by simp
  next
    case False
    with Suc.prems have i: "i < n" "n < length alphabet" by simp_all
    then have "alphabet ! i \<noteq> alphabet ! n"
      using assms(1) False by (simp add: nth_eq_iff_index_eq)
    with Suc.IH i show ?thesis by simp
  qed
qed

lemma buildCharIndex_nth:
  assumes "distinct alphabet" "i < length alphabet"
  shows "buildCharIndex alphabet [alphabet ! i] = Some (int i)"
  unfolding buildCharIndex_def using assms by (intro buildCharIndex_upto) simp_all

subsection \<open>Code points of a string without surrogates\<close>

lemma codePoints_single:
  "list_all (\<lambda>c. \<not> isHighSurrogate c) s \<Longrightarrow> codePoints s = map (\<lambda>c. [c]) s"
  by (induction s rule: codePoints.induct) simp_all

subsection \<open>Digits of a number\<close>

lemma decodeChars_append:
  "decodeChars ci b acc (xs @ ys) =
     (case decodeChars ci b acc xs of Inl e \<Rightarrow> Inl e | Inr a \<Rightarrow> decodeChars ci b a ys)"
  by (induction xs arbitrary: acc) (auto split: option.splits)

lemma encodeLoop_result: "encodeLoop alphabet num result = encodeLoop alphabet num [] @ result"
proof (induction "nat num" arbitrary: num result rule: less_induct)
  case less
  show ?case
  proof (cases "num > 0 \<and> 2 \<le> length alphabet")
    case True
    define q where "q = num div int (length alphabet)"
    define d where "d = alphabet ! nat (num mod int (length alphabet))"
    have "q < num"
      unfolding q_def using True by (intro int_div_less_self) auto
    then have lt: "nat q < nat num" using True by simp
    have "encodeLoop alphabet num result = encodeLoop alphabet q (d # result)"
      using True by (subst encodeLoop.simps) (simp add: q_def d_def)
    also have "\<dots> = encodeLoop alphabet q [] @ d # result"
      by (rule less [OF lt])
    also have "\<dots> = (encodeLoop alphabet q [] @ [d]) @ result"
      by simp
    also have "encodeLoop alphabet q [] @ [d] = encodeLoop alphabet q [d]"
      by (rule less [OF lt, symmetric])
    also have "\<dots> = encodeLoop alphabet num []"
      using True by (subst (2) encodeLoop.simps) (simp add: q_def d_def)
    finally show ?thesis .
  next
    case False
    have "encodeLoop alphabet num result = result"
      by (subst encodeLoop.simps) (simp only: False if_False)
    moreover have "encodeLoop alphabet num [] = []"
      by (subst encodeLoop.simps) (simp only: False if_False)
    ultimately show ?thesis by simp
  qed
qed

lemma encodeLoop_zero: "encodeLoop alphabet 0 result = result"
  by (subst encodeLoop.simps) simp

lemma encodeLoop_set:
  assumes "alphabet \<noteq> []"
  shows "set (encodeLoop alphabet num result) \<subseteq> set alphabet \<union> set result"
proof (induction "nat num" arbitrary: num result rule: less_induct)
  case less
  show ?case
  proof (cases "num > 0 \<and> 2 \<le> length alphabet")
    case True
    define q where "q = num div int (length alphabet)"
    define r where "r = nat (num mod int (length alphabet))"
    have "q < num"
      unfolding q_def using True by (intro int_div_less_self) auto
    then have lt: "nat q < nat num" using True by simp
    have "0 \<le> num mod int (length alphabet)" "num mod int (length alphabet) < int (length alphabet)"
      using assms by simp_all
    then have "r < length alphabet"
      unfolding r_def by simp
    then have "alphabet ! r \<in> set alphabet"
      by simp
    moreover have "encodeLoop alphabet num result = encodeLoop alphabet q (alphabet ! r # result)"
      using True by (subst encodeLoop.simps) (simp add: q_def r_def)
    ultimately show ?thesis
      using less [OF lt, of "alphabet ! r # result"] by auto
  next
    case False
    have "encodeLoop alphabet num result = result"
      by (subst encodeLoop.simps) (simp only: False if_False)
    then show ?thesis by simp
  qed
qed

lemma decodeChars_encodeLoop:
  assumes "2 \<le> length alphabet" "distinct alphabet" "0 \<le> num"
  shows "decodeChars (buildCharIndex alphabet) (int (length alphabet)) 0
           (map (\<lambda>c. [c]) (encodeLoop alphabet num [])) = Inr num"
  using assms(3)
proof (induction "nat num" arbitrary: num rule: less_induct)
  case less
  let ?b = "int (length alphabet)"
  show ?case
  proof (cases "num > 0")
    case True
    define q where "q = num div ?b"
    define r where "r = nat (num mod ?b)"
    have b: "2 \<le> ?b" using assms(1) by simp
    have "q < num"
      unfolding q_def using True b by (intro int_div_less_self) auto
    moreover have q0: "0 \<le> q"
      unfolding q_def using True by (simp add: div_int_pos_iff)
    ultimately have lt: "nat q < nat num" by simp
    have ne: "alphabet \<noteq> []"
      using assms(1) by auto
    then have m: "0 \<le> num mod ?b" "num mod ?b < ?b"
      by simp_all
    then have r: "r < length alphabet" "int r = num mod ?b"
      unfolding r_def by simp_all
    have "encodeLoop alphabet num [] = encodeLoop alphabet q [alphabet ! r]"
      using True assms(1) by (subst encodeLoop.simps) (simp add: q_def r_def)
    also have "\<dots> = encodeLoop alphabet q [] @ [alphabet ! r]"
      by (rule encodeLoop_result)
    finally have "decodeChars (buildCharIndex alphabet) ?b 0
          (map (\<lambda>c. [c]) (encodeLoop alphabet num []))
        = decodeChars (buildCharIndex alphabet) ?b q [ [alphabet ! r] ]"
      using less(1) [OF lt q0] by (simp add: decodeChars_append)
    also have "\<dots> = Inr (q * ?b + int r)"
      using buildCharIndex_nth [OF assms(2) r(1)] by simp
    also have "q * ?b + int r = num"
      unfolding q_def r(2) by simp
    finally show ?thesis .
  next
    case False
    with less(2) have "num = 0" by simp
    then show ?thesis by (simp add: encodeLoop_zero)
  qed
qed

subsection \<open>Bytes of a number\<close>

lemma bytesToNumber_snoc:
  "bytesToNumber (bs @ [b]) = push_bit 8 (bytesToNumber bs) OR uint b"
  by (simp add: bytesToNumber_def)

lemma bytesToNumber_nonneg: "0 \<le> bytesToNumber bs"
  by (induction bs rule: rev_induct) (simp_all add: bytesToNumber_snoc bytesToNumber_def)

lemma bytesToNumber_zero_iff: "bytesToNumber bs = 0 \<longleftrightarrow> (\<forall>b \<in> set bs. b = 0)"
proof (induction bs rule: rev_induct)
  case Nil
  then show ?case by (simp add: bytesToNumber_def)
next
  case (snoc b bs)
  then show ?case
    by (auto simp: bytesToNumber_snoc or_eq_0_iff unsigned_eq_0_iff)
qed

lemma low_byte: "word_of_int ((push_bit 8 n OR uint b) AND 0xff) = (b :: byte)"
proof -
  have "(0xff :: int) = mask 8" by (simp add: mask_eq_exp_minus_1)
  then have "(push_bit 8 n OR uint b) AND 0xff = take_bit 8 (push_bit 8 n OR uint b)"
    by (simp add: take_bit_eq_mask)
  also have "\<dots> = take_bit 8 (uint b)"
    by (simp add: take_bit_push_bit)
  also have "\<dots> = uint b"
    using uint_bounded [of b] by (simp add: take_bit_int_eq_self)
  finally show ?thesis by simp
qed

lemma high_bytes: "drop_bit 8 (push_bit 8 n OR uint (b :: byte)) = n"
proof -
  have "drop_bit 8 (uint b) = 0"
    using uint_bounded [of b] by (simp add: drop_bit_eq_div)
  then show ?thesis by (simp add: drop_bit_push_bit)
qed

lemma numToBytes_bytesToNumber:
  "numToBytes (bytesToNumber bs) acc = dropWhile (\<lambda>b. b = 0) bs @ acc"
proof (induction bs arbitrary: acc rule: rev_induct)
  case Nil
  then show ?case by (simp add: bytesToNumber_def numToBytes.simps)
next
  case (snoc b bs)
  let ?n = "bytesToNumber (bs @ [b])"
  show ?case
  proof (cases "?n > 0")
    case True
    have hi: "drop_bit 8 ?n = bytesToNumber bs"
      by (simp only: bytesToNumber_snoc high_bytes)
    have lo: "word_of_int (?n AND 0xff) = b"
      by (simp only: bytesToNumber_snoc low_byte)
    have "numToBytes ?n acc = numToBytes (bytesToNumber bs) (b # acc)"
      using True by (subst numToBytes.simps) (simp only: hi lo if_True)
    also have "\<dots> = dropWhile (\<lambda>b. b = 0) bs @ b # acc"
      by (rule snoc.IH)
    also have "\<dots> = dropWhile (\<lambda>b. b = 0) (bs @ [b]) @ acc"
    proof (cases "\<forall>x \<in> set bs. x = 0")
      case True
      then have "bytesToNumber bs = 0" by (simp add: bytesToNumber_zero_iff)
      with \<open>?n > 0\<close> have "b \<noteq> 0" by (auto simp: bytesToNumber_snoc)
      with True show ?thesis by (simp add: dropWhile_append)
    next
      case False
      then show ?thesis by (auto simp: dropWhile_append)
    qed
    finally show ?thesis .
  next
    case False
    then have z: "?n = 0" using bytesToNumber_nonneg [of "bs @ [b]"] by simp
    then have "\<forall>x \<in> set (bs @ [b]). x = 0" by (simp only: bytesToNumber_zero_iff)
    then have "dropWhile (\<lambda>b. b = 0) (bs @ [b]) = []" by simp
    then show ?thesis using z by (simp add: numToBytes.simps)
  qed
qed

subsection \<open>Restoring the length\<close>

lemma leading_zeros:
  "bs = replicate (length (takeWhile (\<lambda>b. b = 0) bs)) (0 :: byte) @ dropWhile (\<lambda>b. b = 0) bs"
proof -
  have tw: "takeWhile (\<lambda>b. b = 0) bs = replicate (length (takeWhile (\<lambda>b. b = 0) bs)) (0 :: byte)"
    by (rule replicate_eqI) (auto dest: set_takeWhileD)
  show ?thesis
    by (simp only: tw [symmetric] takeWhile_dropWhile_id)
qed

lemma fitToLength_zeros:
  "fitToLength (length bs) (replicate k 0 @ dropWhile (\<lambda>b. b = 0) bs) = bs"
proof -
  define j where "j = length (takeWhile (\<lambda>b. b = 0) bs)"
  define r where "r = dropWhile (\<lambda>b. b = 0) bs"
  have bs: "bs = replicate j 0 @ r"
    unfolding j_def r_def by (rule leading_zeros)
  have len: "length bs = j + length r"
    by (subst bs) simp
  have main: "fitToLength (j + length r) (replicate k 0 @ r) = replicate j 0 @ r"
  proof (cases "j \<le> k")
    case True
    then have "replicate k (0 :: byte) = replicate (k - j) 0 @ replicate j 0"
      by (simp add: replicate_add [symmetric])
    then show ?thesis using True by (simp add: fitToLength_def)
  next
    case False
    then have "replicate j (0 :: byte) = replicate (j - k) 0 @ replicate k 0"
      by (simp add: replicate_add [symmetric])
    then show ?thesis using False by (simp add: fitToLength_def)
  qed
  show ?thesis
    unfolding r_def [symmetric] len main by (rule bs [symmetric])
qed

lemma validateAlphabet_ok:
  assumes "2 \<le> length alphabet" "distinct alphabet"
    and "list_all (\<lambda>c. \<not> isHighSurrogate c) alphabet"
  shows "validateAlphabet alphabet = Inr ()"
proof -
  have "distinct (map (\<lambda>c. [c]) alphabet)"
    using assms(2) by (simp add: distinct_map inj_on_def)
  then have "card (set (codePoints alphabet)) = length alphabet"
    using distinct_card [of "map (\<lambda>c. [c]) alphabet"] by (simp add: codePoints_single [OF assms(3)])
  then show ?thesis
    using assms(1) by (simp add: validateAlphabet_def)
qed

text \<open>
  For an alphabet of at least two code units, all different and none of them a high
  surrogate, and for every byte sequence: encoding succeeds, decoding the encoded string
  succeeds, and the decoded bytes, cut or filled with zero bytes on the left to the
  original length, are the original bytes.
\<close>

lemma encodeBase_decodeBase_roundtrip_bmp:
  assumes "2 \<le> length alphabet" "distinct alphabet"
    and "list_all (\<lambda>c. \<not> isHighSurrogate c) alphabet"
  shows "\<exists>str decoded. encodeBase bs alphabet = Inr str
           \<and> decodeBase str alphabet = Inr decoded
           \<and> fitToLength (length bs) decoded = bs"
proof -
  note ok = validateAlphabet_ok [OF assms]
  define num where "num = bytesToNumber bs"
  define str where "str = (if bs = [] then [] else encodeLoop alphabet num [])"
  have enc: "encodeBase bs alphabet = Inr str"
    by (simp add: encodeBase_def ok str_def num_def)
  have str: "str = encodeLoop alphabet num []"
    by (simp add: str_def num_def bytesToNumber_def encodeLoop_zero)
  have "alphabet \<noteq> []"
    using assms(1) by auto
  then have "set str \<subseteq> set alphabet"
    using encodeLoop_set [of alphabet num "[]"] by (simp add: str)
  then have "list_all (\<lambda>c. \<not> isHighSurrogate c) str"
    using assms(3) by (auto simp: list_all_iff)
  then have points: "codePoints str = map (\<lambda>c. [c]) str"
    by (rule codePoints_single)
  have chars: "decodeChars (buildCharIndex alphabet) (int (length alphabet)) 0 (codePoints str)
      = Inr num"
    unfolding points unfolding str
    by (rule decodeChars_encodeLoop [OF assms(1,2)]) (simp add: num_def bytesToNumber_nonneg)
  define byteLength where "byteLength = (length str * ceilLog2 (length alphabet) + 7) div 8"
  define decoded where "decoded =
    (if num = 0 then replicate byteLength 0
     else replicate (byteLength - length (numToBytes num [])) 0 @ numToBytes num [])"
  have dec: "decodeBase str alphabet = Inr decoded"
    by (simp add: decodeBase_def ok chars Let_def decoded_def byteLength_def)
  have "\<exists>k. decoded = replicate k 0 @ dropWhile (\<lambda>b. b = 0) bs"
  proof (cases "num = 0")
    case True
    then have "\<forall>b \<in> set bs. b = 0"
      by (simp only: num_def bytesToNumber_zero_iff)
    then have "dropWhile (\<lambda>b. b = 0) bs = []"
      by simp
    with True have "decoded = replicate byteLength 0 @ dropWhile (\<lambda>b. b = 0) bs"
      by (simp add: decoded_def)
    then show ?thesis ..
  next
    case False
    have "numToBytes num [] = dropWhile (\<lambda>b. b = 0) bs"
      unfolding num_def by (simp only: numToBytes_bytesToNumber append_Nil2)
    with False have "decoded = replicate (byteLength - length (numToBytes num [])) 0
        @ dropWhile (\<lambda>b. b = 0) bs"
      by (simp add: decoded_def)
    then show ?thesis ..
  qed
  then obtain k where "decoded = replicate k 0 @ dropWhile (\<lambda>b. b = 0) bs" ..
  then have "fitToLength (length bs) decoded = bs"
    by (simp only: fitToLength_zeros)
  with enc dec show ?thesis by (intro exI conjI)
qed

lemma encodeBase_decodeBase_example:
  "encodeBase [0, 1, 2] (utf16 ''abc'') = Inr (utf16 ''baabca'')
   \<and> decodeBase (utf16 ''baabca'') (utf16 ''abc'') = Inr [1, 2]
   \<and> fitToLength 3 [1, 2] = [0, 1, 2]"
  by code_simp

text \<open>
  Claim C5. For every alphabet of at least two distinct characters, decoding an encoded
  byte sequence should give the bytes back (the length being kept outside). The alphabet
  of the two characters \<open>U+1F600\<close> and \<open>U+1F601\<close> (code units \<open>D83D DE00 D83D DE01\<close>) has two
  distinct code points, and \<open>encodeBase\<close> throws \<open>INVALID_ALPHABET\<close>: the size of the set of
  its code points, 2, is compared with its length in code units, 4. The alphabet of the
  two code units \<open>DC00 D800\<close> is accepted and the byte 2 is encoded to \<open>D800 DC00\<close>, on which
  \<open>decodeBase\<close> throws: the string iterator reads the two code units as one code point,
  which is no key of \<open>charIndex\<close>.
\<close>

theorem encodeBase_decodeBase_surrogates:
  "codePoints [0xD83D, 0xDE00, 0xD83D, 0xDE01] = [ [0xD83D, 0xDE00], [0xD83D, 0xDE01] ]
   \<and> encodeBase [1] [0xD83D, 0xDE00, 0xD83D, 0xDE01] = Inl INVALID_ALPHABET
   \<and> encodeBase [2] [0xDC00, 0xD800] = Inr [0xD800, 0xDC00]
   \<and> decodeBase [0xD800, 0xDC00] [0xDC00, 0xD800] = Inl INVALID_ALPHABET"
  by code_simp


section \<open>UUID\<close>

lemma upt_16: "[0..<16] = [0, 1, 2, 3, 4, 5, 6, 7, 8, 9, 10, 11, 12, 13, 14, 15]"
  by (simp add: upt_rec)

lemma hex_digit_char:
  assumes "d < 16"
  shows "isHexDigit (DIGITS ! d) \<and> hexDigitValue (DIGITS ! d) = d \<and> DIGITS ! d \<noteq> CHR ''-''"
proof -
  have "list_all (\<lambda>d. isHexDigit (DIGITS ! d) \<and> hexDigitValue (DIGITS ! d) = d
      \<and> DIGITS ! d \<noteq> CHR ''-'') [0..<16]"
    unfolding upt_16 by (simp add: isHexDigit_def hexDigitValue_def DIGITS_def)
  with assms show ?thesis by (simp add: list_all_iff)
qed

lemma byteToHex_eq: "byteToHex b = [DIGITS ! (unat b div 16), DIGITS ! (unat b mod 16)]"
proof -
  have lt: "unat b < 256" using unsigned_less [of b, where ?'a = nat] by simp
  show ?thesis
  proof (cases "unat b < 16")
    case True
    then show ?thesis
      by (simp add: byteToHex_def padStart_def natToString.simps [of 16 "unat b"] DIGITS_def)
  next
    case False
    then have "unat b div 16 < 16" using lt by simp
    then show ?thesis using False
      by (simp add: byteToHex_def padStart_def natToString.simps [of 16 "unat b"]
          natToString.simps [of 16 "unat b div 16"])
  qed
qed

lemma byteToHex_digits:
  obtains h l where "byteToHex b = [h, l]" "isHexDigit h" "isHexDigit l"
    "h \<noteq> CHR ''-''" "l \<noteq> CHR ''-''" "parseInt16 [h, l] = Some (unat b)"
proof -
  have lt: "unat b < 256" using unsigned_less [of b, where ?'a = nat] by simp
  then have hi: "unat b div 16 < 16" by simp
  have lo: "unat b mod 16 < 16" by simp
  note H = hex_digit_char [OF hi] and L = hex_digit_char [OF lo]
  show ?thesis
  proof (rule that [of "DIGITS ! (unat b div 16)" "DIGITS ! (unat b mod 16)"])
    show "parseInt16 [DIGITS ! (unat b div 16), DIGITS ! (unat b mod 16)] = Some (unat b)"
      using H L by (simp add: parseInt16_def)
  qed (use H L in \<open>simp_all add: byteToHex_eq\<close>)
qed

lemma toHex_Cons: "toHex (b # bs) = byteToHex b @ toHex bs"
  by (simp add: toHex_def byteToHex_def)

lemma toHex_Nil: "toHex [] = []"
  by (simp add: toHex_def)

lemma parse_format:
  "parseUuid (formatUuid [b0, b1, b2, b3, b4, b5, b6, b7, b8, b9, b10, b11, b12, b13, b14, b15])
   = (let bytes = [b0, b1, b2, b3, b4, b5, b6, b7, b8, b9, b10, b11, b12, b13, b14, b15];
          version = unat (drop_bit 4 b6 AND 0x0f);
          variantBits = unat (drop_bit 6 b8);
          variant = (if variantBits = 0 then NCS
                       else if variantBits = 2 then Microsoft
                       else if variantBits = 3 then Future
                       else RFC4122);
            result = \<lparr> version = version, variant = variant, bytes = bytes, timestamp = None \<rparr>
        in if version = 7
           then Some (result\<lparr>timestamp :=
                        Some (foldl (\<lambda>t b. push_bit 8 t OR uint b) 0 (take 6 bytes))\<rparr>)
           else Some result)"
proof -
  obtain h0 l0 where p0: "byteToHex b0 = [h0, l0]" "isHexDigit h0" "isHexDigit l0"
    "h0 \<noteq> CHR ''-''" "l0 \<noteq> CHR ''-''" "parseInt16 [h0, l0] = Some (unat b0)" by (rule byteToHex_digits)
  obtain h1 l1 where p1: "byteToHex b1 = [h1, l1]" "isHexDigit h1" "isHexDigit l1"
    "h1 \<noteq> CHR ''-''" "l1 \<noteq> CHR ''-''" "parseInt16 [h1, l1] = Some (unat b1)" by (rule byteToHex_digits)
  obtain h2 l2 where p2: "byteToHex b2 = [h2, l2]" "isHexDigit h2" "isHexDigit l2"
    "h2 \<noteq> CHR ''-''" "l2 \<noteq> CHR ''-''" "parseInt16 [h2, l2] = Some (unat b2)" by (rule byteToHex_digits)
  obtain h3 l3 where p3: "byteToHex b3 = [h3, l3]" "isHexDigit h3" "isHexDigit l3"
    "h3 \<noteq> CHR ''-''" "l3 \<noteq> CHR ''-''" "parseInt16 [h3, l3] = Some (unat b3)" by (rule byteToHex_digits)
  obtain h4 l4 where p4: "byteToHex b4 = [h4, l4]" "isHexDigit h4" "isHexDigit l4"
    "h4 \<noteq> CHR ''-''" "l4 \<noteq> CHR ''-''" "parseInt16 [h4, l4] = Some (unat b4)" by (rule byteToHex_digits)
  obtain h5 l5 where p5: "byteToHex b5 = [h5, l5]" "isHexDigit h5" "isHexDigit l5"
    "h5 \<noteq> CHR ''-''" "l5 \<noteq> CHR ''-''" "parseInt16 [h5, l5] = Some (unat b5)" by (rule byteToHex_digits)
  obtain h6 l6 where p6: "byteToHex b6 = [h6, l6]" "isHexDigit h6" "isHexDigit l6"
    "h6 \<noteq> CHR ''-''" "l6 \<noteq> CHR ''-''" "parseInt16 [h6, l6] = Some (unat b6)" by (rule byteToHex_digits)
  obtain h7 l7 where p7: "byteToHex b7 = [h7, l7]" "isHexDigit h7" "isHexDigit l7"
    "h7 \<noteq> CHR ''-''" "l7 \<noteq> CHR ''-''" "parseInt16 [h7, l7] = Some (unat b7)" by (rule byteToHex_digits)
  obtain h8 l8 where p8: "byteToHex b8 = [h8, l8]" "isHexDigit h8" "isHexDigit l8"
    "h8 \<noteq> CHR ''-''" "l8 \<noteq> CHR ''-''" "parseInt16 [h8, l8] = Some (unat b8)" by (rule byteToHex_digits)
  obtain h9 l9 where p9: "byteToHex b9 = [h9, l9]" "isHexDigit h9" "isHexDigit l9"
    "h9 \<noteq> CHR ''-''" "l9 \<noteq> CHR ''-''" "parseInt16 [h9, l9] = Some (unat b9)" by (rule byteToHex_digits)
  obtain h10 l10 where p10: "byteToHex b10 = [h10, l10]" "isHexDigit h10" "isHexDigit l10"
    "h10 \<noteq> CHR ''-''" "l10 \<noteq> CHR ''-''" "parseInt16 [h10, l10] = Some (unat b10)" by (rule byteToHex_digits)
  obtain h11 l11 where p11: "byteToHex b11 = [h11, l11]" "isHexDigit h11" "isHexDigit l11"
    "h11 \<noteq> CHR ''-''" "l11 \<noteq> CHR ''-''" "parseInt16 [h11, l11] = Some (unat b11)" by (rule byteToHex_digits)
  obtain h12 l12 where p12: "byteToHex b12 = [h12, l12]" "isHexDigit h12" "isHexDigit l12"
    "h12 \<noteq> CHR ''-''" "l12 \<noteq> CHR ''-''" "parseInt16 [h12, l12] = Some (unat b12)" by (rule byteToHex_digits)
  obtain h13 l13 where p13: "byteToHex b13 = [h13, l13]" "isHexDigit h13" "isHexDigit l13"
    "h13 \<noteq> CHR ''-''" "l13 \<noteq> CHR ''-''" "parseInt16 [h13, l13] = Some (unat b13)" by (rule byteToHex_digits)
  obtain h14 l14 where p14: "byteToHex b14 = [h14, l14]" "isHexDigit h14" "isHexDigit l14"
    "h14 \<noteq> CHR ''-''" "l14 \<noteq> CHR ''-''" "parseInt16 [h14, l14] = Some (unat b14)" by (rule byteToHex_digits)
  obtain h15 l15 where p15: "byteToHex b15 = [h15, l15]" "isHexDigit h15" "isHexDigit l15"
    "h15 \<noteq> CHR ''-''" "l15 \<noteq> CHR ''-''" "parseInt16 [h15, l15] = Some (unat b15)" by (rule byteToHex_digits)
  note ps = p0 p1 p2 p3 p4 p5 p6 p7 p8 p9 p10 p11 p12 p13 p14 p15
  have fmt: "formatUuid [b0, b1, b2, b3, b4, b5, b6, b7, b8, b9, b10, b11, b12, b13, b14, b15]
    = [h0, l0, h1, l1, h2, l2, h3, l3, CHR ''-'', h4, l4, h5, l5, CHR ''-'', h6, l6, h7, l7, CHR ''-'',
       h8, l8, h9, l9, CHR ''-'', h10, l10, h11, l11, h12, l12, h13, l13, h14, l14, h15, l15]"
    by (simp add: formatUuid_def toHex_Cons toHex_Nil ps)
  have valid: "isValidUuid [h0, l0, h1, l1, h2, l2, h3, l3, CHR ''-'', h4, l4, h5, l5, CHR ''-'', h6, l6, h7, l7, CHR ''-'',
       h8, l8, h9, l9, CHR ''-'', h10, l10, h11, l11, h12, l12, h13, l13, h14, l14, h15, l15]"
    by (simp add: isValidUuid_def ps)
  show ?thesis
    unfolding fmt parseUuid_def upt_16 using valid
    by (simp add: ps Let_def)
qed


lemma version_bits_4: "unat (drop_bit 4 ((b AND 0x0f) OR 0x40) AND 0x0f :: byte) = 4"
  by simp

lemma variant_bits_10: "unat (drop_bit 6 ((b AND 0x3f) OR 0x80) :: byte) = 2"
  by simp

lemma kernelRandom_16:
  "kernelRandom krn 16 = [krn 0, krn 1, krn 2, krn 3, krn 4, krn 5, krn 6, krn 7, krn 8, krn 9,
     krn 10, krn 11, krn 12, krn 13, krn 14, krn 15]"
  by (simp add: kernelRandom_def upt_16)

text \<open>
  Claim C1. Parsing a generated UUID v4 should give version 4 and the variant \<open>RFC4122\<close>.
  For every draw of the 16 random bytes, \<open>parseUuid\<close> of the string that \<open>generateV4\<close>
  returns gives version 4, the bytes of the identifier, and the variant \<open>Microsoft\<close>:
  the two bits \<open>10\<close> that the generator writes are the case \<open>variantBits === 0b10\<close> of
  \<open>parseUuid\<close>, which answers \<open>Microsoft\<close>.
\<close>

theorem generateV4_parses_as_Microsoft:
  "parseUuid (generateV4 krn)
   = Some \<lparr> version = 4, variant = Microsoft,
            bytes = (kernelRandom krn 16)[6 := (krn 6 AND 0x0f) OR 0x40, 8 := (krn 8 AND 0x3f) OR 0x80],
            timestamp = None \<rparr>"
  by (simp add: generateV4_def kernelRandom_16 parse_format Let_def version_bits_4 variant_bits_10
      del: drop_bit_or drop_bit_and)


lemma upt_6: "[0..<6] = [0, 1, 2, 3, 4, 5]"
  by (simp add: upt_rec)

lemma upt_10: "[0..<10] = [0, 1, 2, 3, 4, 5, 6, 7, 8, 9]"
  by (simp add: upt_rec)

lemma kernelRandom_10:
  "kernelRandom krn 10 = [krn 0, krn 1, krn 2, krn 3, krn 4, krn 5, krn 6, krn 7, krn 8, krn 9]"
  by (simp add: kernelRandom_def upt_10)

lemma replicate_16: "replicate 16 x = [x, x, x, x, x, x, x, x, x, x, x, x, x, x, x, x]"
  by (simp add: numeral_eq_Suc)

lemma generateV7_255:
  "generateV7 krn now (Some 255) = CHR ''f'' # CHR ''f'' # drop 2 (generateV7 krn now (Some 255))"
  by (simp add: generateV7_def kernelRandom_10 upt_6 replicate_16 setAt_def Let_def
      formatUuid_def toHex_Cons toHex_Nil byteToHex_eq DIGITS_def)

lemma generateV7_256:
  "generateV7 krn now (Some 256) = CHR ''0'' # CHR ''0'' # drop 2 (generateV7 krn now (Some 256))"
  by (simp add: generateV7_def kernelRandom_10 upt_6 replicate_16 setAt_def Let_def
      formatUuid_def toHex_Cons toHex_Nil byteToHex_eq DIGITS_def)

text \<open>
  Claim C3. Two UUID v7 generated at timestamps \<open>t1 < t2\<close> should compare \<open>id1 < id2\<close>.
  At \<open>t1 = 255\<close> and \<open>t2 = 256\<close>, for all random draws, the identifier of \<open>t2\<close> is
  below the identifier of \<open>t1\<close>: the loop of \<open>generateV7\<close> stores the byte
  \<open>(ts >> 8 i) & 0xff\<close> at index \<open>i\<close>, the least significant byte first.
\<close>

theorem generateV7_order_reversed:
  "stringLess (generateV7 krn2 now2 (Some 256)) (generateV7 krn1 now1 (Some 255))
   \<and> \<not> stringLess (generateV7 krn1 now1 (Some 255)) (generateV7 krn2 now2 (Some 256))"
  by (subst generateV7_255, subst generateV7_256, subst generateV7_255, subst generateV7_256) simp


section \<open>ULID\<close>

text \<open>
  Claim C7. A generated ULID should have 26 characters, the 10 characters of the
  timestamp, most significant digit first, and 16 characters for the random bytes. At
  timestamp 1 with ten zero random bytes the result has 10 characters; with the random
  bytes \<open>07 ff ff ff ff ff ff ff ff ff\<close> it has 25 (\<open>encodeBase\<close> writes no leading zero
  digit, and nothing fills the random part up to 16 characters). The time part of
  timestamp 1 is \<open>1000000000\<close>, the least significant digit first, which \<open>decodeTime\<close>
  reads as \<open>2^45\<close>.
\<close>

theorem generateUlid_short_and_reversed:
  "generateUlid (\<lambda>i. 0) 0 (Some 1) = Inr (utf16 ''1000000000'')
   \<and> generateUlid (\<lambda>i. if i = 0 then 7 else 255) 0 (Some 1)
       = Inr (utf16 ''1000000000ZZZZZZZZZZZZZZZ'')
   \<and> encodeTime 1 10 = utf16 ''1000000000''
   \<and> decodeTime (utf16 ''1000000000'') = Integer (2 ^ 45)"
  by code_simp

text \<open>
  Claim C2. Two calls of the monotonic generator in the same millisecond should give
  increasing strings, the second random part being the first one plus one. In
  millisecond 5, after a first call that draws \<open>ff 00 00 00 00 00 00 00 00 00\<close>, a second
  call that draws \<open>80 00 00 00 00 00 00 00 00 00\<close> returns a smaller string: the increment
  is applied to the bytes drawn by the second call, and \<open>lastRandom\<close> only counts the
  calls.
\<close>

theorem monotonic_ulid_not_increasing:
  "generateMonotonicUlid (\<lambda>i. if i = 0 then 255 else 0) 5 ulidInstall
     = (Inr (utf16 ''5000000000ZW00000000000000''), \<lparr>ulidLastTime = 5, lastRandom = 1\<rparr>)
   \<and> generateMonotonicUlid (\<lambda>i. if i = 0 then 128 else 0) 5 \<lparr>ulidLastTime = 5, lastRandom = 1\<rparr>
     = (Inr (utf16 ''5000000000G000000000000001''), \<lparr>ulidLastTime = 5, lastRandom = 2\<rparr>)
   \<and> stringLess ''5000000000G000000000000001'' ''5000000000ZW00000000000000''"
  by code_simp

subsection \<open>The digits that \<open>decodeTime\<close> reads\<close>

lemma toUpperCase_nonempty: "toUpperCase c \<noteq> []"
  by (simp add: toUpperCase_def utf16_def)

lemma indexOfFrom_range:
  assumes "pat \<noteq> []"
  shows "indexOfFrom i s pat = - 1
         \<or> (i \<le> indexOfFrom i s pat \<and> indexOfFrom i s pat < i + int (length s))"
proof (induction s arbitrary: i)
  case Nil
  then show ?case using assms by simp
next
  case (Cons x xs)
  show ?case
  proof (cases "take (length pat) (x # xs) = pat")
    case True
    then show ?thesis by simp
  next
    case False
    then have "indexOfFrom i (x # xs) pat = indexOfFrom (i + 1) xs pat"
      by simp
    with Cons [of "i + 1"] show ?thesis
      by (simp only: list.size) linarith
  qed
qed

lemma length_CROCKFORD_BASE32: "length CROCKFORD_BASE32 = 32"
  by (simp add: CROCKFORD_BASE32_def utf16_def)

lemma digit_range:
  "indexOf CROCKFORD_BASE32 (toUpperCase c) = - 1
   \<or> (0 \<le> indexOf CROCKFORD_BASE32 (toUpperCase c)
      \<and> indexOf CROCKFORD_BASE32 (toUpperCase c) < 32)"
  using indexOfFrom_range [OF toUpperCase_nonempty, of 0 CROCKFORD_BASE32 c]
  by (simp add: indexOf_def length_CROCKFORD_BASE32)

lemma push_bit_or_digit:
  fixes ts d :: int
  assumes "0 \<le> d" "d < 32"
  shows "push_bit 5 ts OR d = ts * 32 + d"
proof -
  have d: "take_bit 5 d = d"
    using assms by (simp add: take_bit_int_eq_self)
  have "push_bit 5 ts AND take_bit 5 d = 0"
    by (rule bit_eqI) (auto simp: bit_simps)
  then have "push_bit 5 ts + take_bit 5 d = push_bit 5 ts OR take_bit 5 d"
    by (rule disjunctive_add_eq_or)
  then show ?thesis
    by (simp add: d push_bit_eq_mult)
qed

lemma foldl_skip:
  "foldl (\<lambda>ts c. let index = g c in if index = - 1 then ts else h ts index) a s
   = foldl h a (filter (\<lambda>d. d \<noteq> - 1) (map g s))"
  by (induction s arbitrary: a) (simp_all add: Let_def)

lemma foldl_digits:
  fixes a :: int
  assumes "\<And>d. d \<in> set ds \<Longrightarrow> 0 \<le> d \<and> d < 32"
  shows "foldl (\<lambda>ts d. push_bit 5 ts OR d) a ds = foldl (\<lambda>ts d. ts * 32 + d) a ds"
  using assms by (induction ds arbitrary: a) (simp_all add: push_bit_or_digit)

lemma foldl_digits_bound:
  fixes a :: int
  assumes "\<And>d. d \<in> set ds \<Longrightarrow> 0 \<le> d \<and> d < 32" "0 \<le> a" "a < 32 ^ n"
  shows "0 \<le> foldl (\<lambda>ts d. ts * 32 + d) a ds
         \<and> foldl (\<lambda>ts d. ts * 32 + d) a ds < 32 ^ (n + length ds)"
  using assms
proof (induction ds arbitrary: a n)
  case Nil
  then show ?case by simp
next
  case (Cons d ds)
  have d: "0 \<le> d" "d < 32"
    using Cons.prems(1) [of d] by simp_all
  have "a + 1 \<le> 32 ^ n"
    using Cons.prems(3) by simp
  then have "(a + 1) * 32 \<le> 32 ^ n * 32"
    by (rule mult_right_mono) simp
  then have "a * 32 + d < 32 ^ Suc n"
    using d by (simp add: algebra_simps)
  moreover have "0 \<le> a * 32 + d"
    using d Cons.prems(2) by simp
  ultimately show ?case
    using Cons.IH [of "a * 32 + d" "Suc n"] Cons.prems(1) by simp
qed

lemma digits_of:
  "d \<in> set (filter (\<lambda>d. d \<noteq> - 1) (map (\<lambda>c. indexOf CROCKFORD_BASE32 (toUpperCase c)) s))
   \<Longrightarrow> 0 \<le> d \<and> d < 32"
  using digit_range by auto

lemma decodeTime_digits:
  "decodeTime s =
     bigintToNumber (foldl (\<lambda>ts d. ts * 32 + d) 0
       (filter (\<lambda>d. d \<noteq> - 1) (map (\<lambda>c. indexOf CROCKFORD_BASE32 (toUpperCase c)) s)))"
  unfolding decodeTime_def foldl_skip
  by (simp only: foldl_digits [OF digits_of])

lemma bitCount_le: "v < 2 ^ n \<Longrightarrow> bitCount v \<le> n"
proof (induction n arbitrary: v)
  case 0
  then show ?case by (subst bitCount.simps) simp
next
  case (Suc n)
  show ?case
  proof (cases "v \<le> 0")
    case True
    then show ?thesis by (subst bitCount.simps) simp
  next
    case False
    have "v div 2 < 2 ^ n"
      using Suc.prems by simp
    then have "bitCount (v div 2) \<le> n"
      by (rule Suc.IH)
    then show ?thesis
      using False by (subst bitCount.simps) simp
  qed
qed

lemma extractTimestamp_digits:
  "extractTimestamp s =
     Integer (foldl (\<lambda>ts d. ts * 32 + d) 0
       (filter (\<lambda>d. d \<noteq> - 1)
          (map (\<lambda>c. indexOf CROCKFORD_BASE32 (toUpperCase c)) (take 10 s))))"
proof -
  define ds where "ds = filter (\<lambda>d. d \<noteq> - 1)
    (map (\<lambda>c. indexOf CROCKFORD_BASE32 (toUpperCase c)) (take 10 s))"
  define v where "v = foldl (\<lambda>ts d. ts * 32 + d) 0 ds"
  have "length ds \<le> length (take 10 s)"
    unfolding ds_def using length_filter_le [of _ "map _ (take 10 s)"] by simp
  then have len: "length ds \<le> 10"
    by simp
  have "0 \<le> v \<and> v < 32 ^ (0 + length ds)"
    unfolding v_def
  proof (rule foldl_digits_bound)
    fix d
    assume "d \<in> set ds"
    then show "0 \<le> d \<and> d < 32"
      unfolding ds_def by (rule digits_of)
  qed simp_all
  moreover have "(32 :: int) ^ length ds \<le> 32 ^ 10"
    using len by (intro power_increasing) simp_all
  ultimately have v: "0 \<le> v" "v < 2 ^ 50"
    by simp_all
  then have "bitCount v \<le> 50"
    by (intro bitCount_le)
  then have "bigintToNumber v = Integer v"
    using v by (simp add: bigintToNumber_def)
  moreover have "decodeTime (take 10 s) = bigintToNumber v"
    by (simp only: decodeTime_digits v_def ds_def)
  ultimately show ?thesis
    using v by (simp add: extractTimestamp_def dateValue_def v_def ds_def)
qed

subsection \<open>The strings that \<open>isValidUlid\<close> accepts\<close>

lemma canonicalize_letters:
  "list_all (\<lambda>c :: codeunit. (canonicalize c \<in> set CROCKFORD_BASE32)
       = (c \<in> set (utf16 ''0123456789ABCDEFGHJKMNPQRSTVWXYZabcdefghjkmnpqrstvwxyz'')))
     (map of_nat [97..<123])"
  by code_simp

lemma canonicalize_in_alphabet:
  "canonicalize c \<in> set CROCKFORD_BASE32
   \<longleftrightarrow> c \<in> set (utf16 ''0123456789ABCDEFGHJKMNPQRSTVWXYZabcdefghjkmnpqrstvwxyz'')"
proof (cases "0x61 \<le> c \<and> c \<le> 0x7A")
  case True
  then have "97 \<le> unat c" "unat c \<le> 122"
    by (simp_all add: word_le_nat_alt)
  then have "unat c \<in> {97..<123}"
    by auto
  then have "unat c \<in> set [97..<123]"
    by (simp only: set_upt)
  then have "of_nat (unat c) \<in> set (map of_nat [97..<123] :: codeunit list)"
    by (simp only: set_map image_eqI)
  then have "c \<in> set (map of_nat [97..<123] :: codeunit list)"
    by simp
  with canonicalize_letters show ?thesis
    by (simp only: list_all_iff)
next
  case False
  then have "c \<notin> set (utf16 ''abcdefghjkmnpqrstvwxyz'')"
    by (auto simp: utf16_def)
  with False show ?thesis
    by (auto simp: canonicalize_def CROCKFORD_BASE32_def utf16_def)
qed

lemma isValidUlid_iff:
  "isValidUlid s \<longleftrightarrow> length s = 26
     \<and> set s \<subseteq> set (utf16 ''0123456789ABCDEFGHJKMNPQRSTVWXYZabcdefghjkmnpqrstvwxyz'')"
  unfolding isValidUlid_def list_all_iff canonicalize_in_alphabet by auto

text \<open>
  Claim C8, as stated: decoding should reject an input that contains \<open>I\<close>, \<open>L\<close>, \<open>O\<close>, \<open>U\<close>
  or another character outside the alphabet. \<open>I\<close> is not found in the alphabet, and
  \<open>decodeTime\<close> and \<open>extractTimestamp\<close> return the timestamp 1 for an input that starts
  with \<open>I\<close>.
\<close>

theorem decodeTime_produces_timestamp_from_excluded_letter:
  "indexOf CROCKFORD_BASE32 (utf16 ''I'') = - 1
   \<and> decodeTime (utf16 ''I000000001'') = Integer 1
   \<and> extractTimestamp (utf16 ''I000000001ZZZZZZZZZZZZZZZZ'') = Integer 1"
  by code_simp

text \<open>
  Claim C8, amended. \<open>decodeTime\<close> puts each code unit of its input in upper case and
  searches the result in the alphabet string. Where it is found, its position is the
  next digit in base 32, the most significant digit first: so for the 32 characters of
  the alphabet in upper and in lower case, and also for the long s \<open>U+017F\<close> and the
  ligatures \<open>U+FB05\<close> and \<open>U+FB06\<close>, whose upper cases \<open>S\<close> and \<open>ST\<close> are found at the
  position of \<open>S\<close>. Where it is not found, as for \<open>I\<close>, \<open>L\<close>, \<open>O\<close>, \<open>U\<close> in either case, the
  code unit is passed over: the result is the number of the digits found, and no input
  is rejected. The same holds for \<open>extractTimestamp\<close> on the first 10 code units, whose
  number is below \<open>2^50\<close> and is the time value of the date. Only \<open>isValidUlid\<close> rejects:
  it holds exactly for the strings of 26 characters of the alphabet in either case.
\<close>

theorem decodeTime_skips_isValidUlid_rejects:
  "map (\<lambda>c. indexOf CROCKFORD_BASE32 (toUpperCase c)) (utf16 ''0123456789ABCDEFGHJKMNPQRSTVWXYZ'')
     = map int [0..<32]
   \<and> map (\<lambda>c. indexOf CROCKFORD_BASE32 (toUpperCase c)) (utf16 ''0123456789abcdefghjkmnpqrstvwxyz'')
     = map int [0..<32]
   \<and> map (\<lambda>c. indexOf CROCKFORD_BASE32 (toUpperCase c)) [0x17F, 0xFB05, 0xFB06] = [25, 25, 25]
   \<and> map (\<lambda>c. indexOf CROCKFORD_BASE32 (toUpperCase c)) (utf16 ''ILOUilou'')
     = [- 1, - 1, - 1, - 1, - 1, - 1, - 1, - 1]
   \<and> decodeTime s =
       bigintToNumber (foldl (\<lambda>ts d. ts * 32 + d) 0
         (filter (\<lambda>d. d \<noteq> - 1) (map (\<lambda>c. indexOf CROCKFORD_BASE32 (toUpperCase c)) s)))
   \<and> extractTimestamp s =
       Integer (foldl (\<lambda>ts d. ts * 32 + d) 0
         (filter (\<lambda>d. d \<noteq> - 1)
            (map (\<lambda>c. indexOf CROCKFORD_BASE32 (toUpperCase c)) (take 10 s))))
   \<and> isValidUlid s = (length s = 26
       \<and> set s \<subseteq> set (utf16 ''0123456789ABCDEFGHJKMNPQRSTVWXYZabcdefghjkmnpqrstvwxyz''))"
proof (intro conjI)
  show "map (\<lambda>c. indexOf CROCKFORD_BASE32 (toUpperCase c))
      (utf16 ''0123456789ABCDEFGHJKMNPQRSTVWXYZ'') = map int [0..<32]"
    by code_simp
  show "map (\<lambda>c. indexOf CROCKFORD_BASE32 (toUpperCase c))
      (utf16 ''0123456789abcdefghjkmnpqrstvwxyz'') = map int [0..<32]"
    by code_simp
  show "map (\<lambda>c. indexOf CROCKFORD_BASE32 (toUpperCase c)) [0x17F, 0xFB05, 0xFB06] = [25, 25, 25]"
    by code_simp
  show "map (\<lambda>c. indexOf CROCKFORD_BASE32 (toUpperCase c)) (utf16 ''ILOUilou'')
      = [- 1, - 1, - 1, - 1, - 1, - 1, - 1, - 1]"
    by code_simp
  show "decodeTime s =
       bigintToNumber (foldl (\<lambda>ts d. ts * 32 + d) 0
         (filter (\<lambda>d. d \<noteq> - 1) (map (\<lambda>c. indexOf CROCKFORD_BASE32 (toUpperCase c)) s)))"
    by (rule decodeTime_digits)
  show "extractTimestamp s =
       Integer (foldl (\<lambda>ts d. ts * 32 + d) 0
         (filter (\<lambda>d. d \<noteq> - 1)
            (map (\<lambda>c. indexOf CROCKFORD_BASE32 (toUpperCase c)) (take 10 s))))"
    by (rule extractTimestamp_digits)
  show "isValidUlid s = (length s = 26
       \<and> set s \<subseteq> set (utf16 ''0123456789ABCDEFGHJKMNPQRSTVWXYZabcdefghjkmnpqrstvwxyz''))"
    by (rule isValidUlid_iff)
qed


section \<open>CUID2\<close>

lemma timestamp_base36: "numberToString 36 1700000000000 = ''loyw3v28''"
  by (simp add: numberToString_def natToString.simps DIGITS_def)

lemma upt_9: "[0..<9] = [0, 1, 2, 3, 4, 5, 6, 7, 8]"
  by (simp add: upt_rec)

lemma generateCuid2_example:
  "generateCuid2 (\<lambda>i. 7) 2 1700000000000 24 ''abc1'' = Inr ''cloyw3v28777777777abc1''
   \<and> \<not> isValidCuid2 ''cloyw3v28777777777abc1''"
  by (simp add: generateCuid2_def validateSize_def MIN_LENGTH_def MAX_LENGTH_def timestamp_base36
      kernelRandom_def upt_9 Let_def LETTERS_def ALPHABET_def isValidCuid2_def)

text \<open>
  Claim C6. A CUID2 of requested length 24 should have 24 characters. With the
  fingerprint \<open>abc1\<close> at \<open>Date.now() = 1700000000000\<close>, for every first letter and all
  random draws, the result has 22 characters: \<open>randomLength\<close> is 11, only
  \<open>Math.ceil(11 * 0.75) = 9\<close> bytes are drawn, and each byte gives one character.
\<close>

theorem generateCuid2_too_short:
  "\<exists>s. generateCuid2 krn letter 1700000000000 24 ''abc1'' = Inr s \<and> length s = 22"
  by (simp add: generateCuid2_def validateSize_def MIN_LENGTH_def MAX_LENGTH_def timestamp_base36
      kernelRandom_def upt_9 Let_def)

end
